theory Spec2Isabelle
  imports Main "HOL-Library.Sublist"
begin

section \<open>half-light: cross-root style propagation\<close>

text \<open>
  A shallow embedding of \<^verbatim>\<open>src/half-light.ts\<close>: its functions as HOL functions, the objects
  it mutates (adopted lists, constructed style sheets, the set of tracked hosts) as explicit
  state, the exceptions it can meet as values.

  The platform is taken as the script uses it:
  \<^item> JavaScript strings are \<^typ>\<open>string\<close>, one \<^typ>\<open>char\<close> per code unit below 256 (the
    Latin-1 range); every string the script itself mentions is ASCII.
  \<^item> A rule of the CSS object model is its serialised text, and a rule a sheet has taken
    serialises to the text it was given.
  \<^item> What the platform refuses is part of the page: which strings it parses as selectors,
    which rules a constructed sheet takes, which sheets have an owner element and let a
    script read their rules.
\<close>

subsection \<open>Marker Parser (\<^verbatim>\<open>parseMediaQuery\<close>)\<close>

text \<open>The literal text at the head of the regular expression.\<close>

definition marker :: string where
  "marker = ''--crossroot''"

text \<open>
  \<^verbatim>\<open>String.prototype.trim\<close> removes white space and line terminators at both ends. In the
  Latin-1 range these are TAB, LF, VT, FF, CR, SPACE and NBSP.
\<close>

definition is_js_space :: "char \<Rightarrow> bool" where
  "is_js_space c \<longleftrightarrow> c \<in> set [CHR 0x09, CHR 0x0A, CHR 0x0B, CHR 0x0C, CHR 0x0D, CHR 0x20, CHR 0xA0]"

definition trim :: "string \<Rightarrow> string" where
  "trim s = rev (dropWhile is_js_space (rev (dropWhile is_js_space s)))"

text \<open>
  The leftmost position at which the literal \<^verbatim>\<open>--crossroot\<close> starts; the result is the
  text that follows the literal there.
\<close>

fun search_marker :: "string \<Rightarrow> string option" where
  "search_marker [] = None"
| "search_marker (c # cs) =
     (if prefix marker (c # cs) then Some (drop (length marker) (c # cs))
      else search_marker cs)"

text \<open>
  \<^verbatim>\<open>condition.match(/(?:--crossroot\({0,1})([^\)]*)/)\<close>: after the literal, at most one
  opening parenthesis is consumed (greedily), then the capture group takes every character
  up to the first closing parenthesis or the end of the string. Nothing after the literal
  can fail, so the leftmost occurrence of the literal is where the match is. The result is
  the match array: the matched text and the capture group; \<open>None\<close> is JavaScript's \<^verbatim>\<open>null\<close>.
\<close>

definition regex_match :: "string \<Rightarrow> string list option" where
  "regex_match s =
     (case search_marker s of
        None \<Rightarrow> None
      | Some rest \<Rightarrow>
          (let paren = (case rest of [] \<Rightarrow> [] | c # _ \<Rightarrow> if c = CHR ''('' then [c] else []);
               g = takeWhile (\<lambda>c. c \<noteq> CHR '')'') (drop (length paren) rest)
           in Some [marker @ paren @ g, g]))"

record MediaQueryResult =
  isCrossRoot :: bool
  selector :: string

definition parseMediaQuery :: "string \<Rightarrow> MediaQueryResult" where
  "parseMediaQuery condition =
     (let match = regex_match condition
      in \<lparr> isCrossRoot = (condition = ''--crossroot'' \<or> match \<noteq> None),
           selector =
             (case match of
                None \<Rightarrow> ''*''
              | Some m \<Rightarrow> if length m = 2 \<and> trim (m ! 1) \<noteq> [] then m ! 1 else ''*'') \<rparr>)"

text \<open>
  The argument the capture group holds when the text after the literal is \<open>post\<close>: one
  leading opening parenthesis is dropped, and the argument ends before the first closing
  parenthesis.
\<close>

definition marker_argument :: "string \<Rightarrow> string" where
  "marker_argument post =
     takeWhile (\<lambda>c. c \<noteq> CHR '')'')
       (case post of [] \<Rightarrow> [] | c # r \<Rightarrow> if c = CHR ''('' then r else post)"

subsection \<open>The page: DOM nodes, shadow roots, style sheets\<close>

text \<open>
  Nodes (elements and shadow roots) are identified by numbers. The fields of \<open>page\<close> are
  the platform state the script reads and writes:
  \<^item> \<open>parentElement\<close>: \<^verbatim>\<open>node.parentElement\<close> (\<open>None\<close> is \<^verbatim>\<open>null\<close>);
  \<^item> \<open>shadowHost\<close>: defined exactly for the nodes that are instances of \<^verbatim>\<open>ShadowRoot\<close>, and
    then their \<^verbatim>\<open>host\<close>;
  \<^item> \<open>hasDarkenedAttr\<close>, \<open>darkenedProp\<close>: \<^verbatim>\<open>host.hasAttribute('darkened')\<close> and the
    truthiness of \<^verbatim>\<open>host.darkened\<close>;
  \<^item> \<open>documentElement\<close>: \<^verbatim>\<open>document.documentElement\<close>;
  \<^item> \<open>attachedShadow\<close>: the shadow root an element hosts, with its mode;
  \<^item> \<open>adoptedStyleSheets\<close>: the adopted list of a shadow root;
  \<^item> \<open>isSelector\<close>, \<open>matchesSel\<close>: \<^verbatim>\<open>element.matches(selector)\<close> throws a \<^verbatim>\<open>SyntaxError\<close>
    when the platform does not parse the string as a selector, and otherwise tells whether
    the element matches;
  \<^item> \<open>insertRuleCheck\<close>: the exception, if any, with which a constructed sheet that holds
    the given rules refuses the given rule text;
  \<^item> \<open>styleSheets\<close>: \<^verbatim>\<open>document.styleSheets\<close>, references to sheet objects in document order;
  \<^item> \<open>sheetObject\<close>: what each sheet object of the page holds at present;
  \<^item> \<open>currentScript\<close>: \<^verbatim>\<open>document.currentScript\<close>;
  \<^item> \<open>sheetHeap\<close>: the \<^verbatim>\<open>CSSStyleSheet\<close> objects this script has constructed, by address.
\<close>

datatype error = TypeError | SyntaxError | SecurityError | HierarchyRequestError | InvalidStateError

datatype shadow_mode = Open | Closed

text \<open>
  A rule of the CSS object model: the name of its constructor (\<^verbatim>\<open>CSSStyleRule\<close>,
  \<^verbatim>\<open>CSSMediaRule\<close>, \<^verbatim>\<open>CSSSupportsRule\<close>, ...), its \<^verbatim>\<open>conditionText\<close> (\<open>None\<close> where the
  rule kind has none), its serialised text and its nested rules.
\<close>

datatype css_rule =
  CssRule (constructorName: string) (conditionText: "string option") (cssText: string)
    (cssRules: "css_rule list")

text \<open>
  The owner node of a style sheet. The script only asks it
  \<^verbatim>\<open>matches("head > :not([no-half-light])")\<close>: whether its parent is a \<^verbatim>\<open>head\<close> element and
  whether it carries the attribute \<^verbatim>\<open>no-half-light\<close>.
\<close>

record owner_node =
  parentIsHead :: bool
  hasNoHalfLight :: bool

text \<open>
  A style sheet of the page:
  \<^item> \<open>ownerNode\<close>: \<open>None\<close> is \<^verbatim>\<open>null\<close>, as for a sheet that has been removed from the
    document;
  \<^item> \<open>crossOrigin\<close>: the sheet was loaded from another origin, and reading
    \<^verbatim>\<open>sheet.cssRules\<close> throws a \<^verbatim>\<open>SecurityError\<close>;
  \<^item> \<open>mediaText\<close>: \<^verbatim>\<open>sheet.media.mediaText\<close>;
  \<^item> \<open>sheetRules\<close>: \<^verbatim>\<open>sheet.cssRules\<close>, the top-level rules.
\<close>

record style_sheet =
  ownerNode :: "owner_node option"
  crossOrigin :: bool
  mediaText :: string
  sheetRules :: "css_rule list"

text \<open>
  The style sheets the script constructs live in a heap: the address of a sheet is its
  position, the entry is its rule list (serialised texts, index 0 first). A reference in an
  adopted list is either to such a sheet or to a sheet of the page's own.
\<close>

type_synonym heap = "string list list"

type_synonym rule_check = "string list \<Rightarrow> string \<Rightarrow> error option"

datatype sheet_ref = Own nat | Foreign nat

datatype script_element = Script (disableLiveHalfLight: bool)

record page =
  parentElement :: "nat \<Rightarrow> nat option"
  shadowHost :: "nat \<Rightarrow> nat option"
  hasDarkenedAttr :: "nat \<Rightarrow> bool"
  darkenedProp :: "nat \<Rightarrow> bool"
  documentElement :: nat
  attachedShadow :: "nat \<Rightarrow> (shadow_mode \<times> nat) option"
  adoptedStyleSheets :: "nat \<Rightarrow> sheet_ref list"
  isSelector :: "string \<Rightarrow> bool"
  matchesSel :: "nat \<Rightarrow> string \<Rightarrow> bool"
  insertRuleCheck :: rule_check
  styleSheets :: "nat list"
  sheetObject :: "nat \<Rightarrow> style_sheet"
  currentScript :: "script_element option"
  sheetHeap :: heap

text \<open>\<^verbatim>\<open>element.shadowRoot\<close>: the shadow root when it is open, \<^verbatim>\<open>null\<close> otherwise.\<close>

definition shadowRoot :: "page \<Rightarrow> nat \<Rightarrow> nat option" where
  "shadowRoot d e =
     (case attachedShadow d e of
        None \<Rightarrow> None
      | Some (m, sr) \<Rightarrow> (case m of Open \<Rightarrow> Some sr | Closed \<Rightarrow> None))"

subsection \<open>Dark-Root Detector (\<^verbatim>\<open>isInDarkRoot\<close>)\<close>

text \<open>
  The source recurses without a bound, so the model is a partial function: \<open>None\<close> is a walk
  that never returns.
\<close>

partial_function (option) isInDarkRoot :: "page \<Rightarrow> nat \<Rightarrow> bool option" where
  "isInDarkRoot d element =
     (case parentElement d element of
        Some p \<Rightarrow> isInDarkRoot d p
      | None \<Rightarrow>
          (case shadowHost d element of
             Some host \<Rightarrow>
               if hasDarkenedAttr d host \<or> darkenedProp d host then Some True
               else isInDarkRoot d host
           | None \<Rightarrow>
               Some (element \<noteq> documentElement d \<and> \<not> (shadowHost d element \<noteq> None))))"

text \<open>The defining equation also serves to evaluate the walk on a given page.\<close>

declare isInDarkRoot.simps [code]

text \<open>
  One step of the walk, and the ancestry relation it spans: \<open>(m, n)\<close> when the walk goes
  from \<open>n\<close> up to \<open>m\<close>.
\<close>

definition walk_up :: "page \<Rightarrow> nat \<Rightarrow> nat option" where
  "walk_up d n = (case parentElement d n of Some p \<Rightarrow> Some p | None \<Rightarrow> shadowHost d n)"

definition ancestry :: "page \<Rightarrow> (nat \<times> nat) set" where
  "ancestry d = {(m, n). walk_up d n = Some m}"

subsection \<open>Rule Extractor (\<^verbatim>\<open>addStyleRule\<close>, \<^verbatim>\<open>processStyleSheet\<close>, \<^verbatim>\<open>refreshCrossRootStyles\<close>)\<close>

text \<open>
  A \<^verbatim>\<open>CrossRootStyles\<close> object: its own properties in the order in which JavaScript
  enumerates them, each holding a reference (a heap address) to a \<^verbatim>\<open>CSSStyleSheet\<close>. Keys
  that are array indices (the canonical decimal numerals below 4294967295) come first, in
  ascending order; the other keys follow in the order of their creation.
\<close>

type_synonym CrossRootStyles = "(string \<times> nat) list"

definition is_digit :: "char \<Rightarrow> bool" where
  "is_digit c \<longleftrightarrow> c \<in> set ''0123456789''"

definition index_value :: "string \<Rightarrow> int" where
  "index_value s = foldl (\<lambda>n c. 10 * n + (of_char c - 48)) 0 s"

definition is_array_index :: "string \<Rightarrow> bool" where
  "is_array_index s \<longleftrightarrow>
     s \<noteq> [] \<and> list_all is_digit s \<and> (hd s = CHR ''0'' \<longrightarrow> s = ''0'')
     \<and> index_value s < 4294967295"

text \<open>\<^verbatim>\<open>obj[k] = v\<close> for a key that is no own property of the object yet.\<close>

fun define_own :: "CrossRootStyles \<Rightarrow> string \<Rightarrow> nat \<Rightarrow> CrossRootStyles" where
  "define_own [] k v = [(k, v)]"
| "define_own ((k', v') # obj) k v =
     (if is_array_index k \<and> (is_array_index k' \<longrightarrow> index_value k < index_value k')
      then (k, v) # (k', v') # obj
      else (k', v') # define_own obj k v)"

definition createCrossRootStyles :: CrossRootStyles where
  "createCrossRootStyles = []"

text \<open>\<^verbatim>\<open>new CSSStyleSheet()\<close>: a fresh empty sheet at the next address.\<close>

definition new_CSSStyleSheet :: "heap \<Rightarrow> heap \<times> nat" where
  "new_CSSStyleSheet h = (h @ [[]], length h)"

text \<open>
  A layer block \<^verbatim>\<open>@layer --crossroot {...}\<close>, the rule the compiler builds around the text of
  a rule.
\<close>

definition layer_open :: string where
  "layer_open = ''@layer --crossroot {''"

definition is_layer_block :: "string \<Rightarrow> bool" where
  "is_layer_block text \<longleftrightarrow>
     prefix layer_open text \<and> suffix ''}'' (drop (length layer_open) text)"

text \<open>
  \<^verbatim>\<open>sheet.insertRule(text)\<close>: the index defaults to 0, the rule goes to the front. The
  sheet may refuse the rule, and then nothing is inserted: a constructed sheet refuses an
  \<^verbatim>\<open>@import\<close> rule with a \<^verbatim>\<open>SyntaxError\<close>, and a rule that would come to stand before a
  \<^verbatim>\<open>@namespace\<close> rule with a \<^verbatim>\<open>HierarchyRequestError\<close>. The argument \<open>check\<close> is the
  platform's decision, from the rules the sheet holds and the text; a layer block is a rule
  that an empty sheet takes.
\<close>

definition insertRule :: "rule_check \<Rightarrow> heap \<Rightarrow> nat \<Rightarrow> string \<Rightarrow> error + heap" where
  "insertRule check h sheet text =
     (if sheet < length h then
        (case (if h ! sheet = [] \<and> is_layer_block text then None else check (h ! sheet) text) of
           Some e \<Rightarrow> Inl e
         | None \<Rightarrow> Inr (h[sheet := text # h ! sheet]))
      else Inr h)"

text \<open>\<^verbatim>\<open>sheet.cssRules\<close> of a constructed sheet.\<close>

definition cssRulesOf :: "heap \<Rightarrow> nat \<Rightarrow> string list" where
  "cssRulesOf h sheet = (if sheet < length h then h ! sheet else [])"

text \<open>
  The names of the properties every object inherits from \<^verbatim>\<open>Object.prototype\<close>. For such a
  name that is not an own property, \<^verbatim>\<open>obj[name]\<close> is the inherited value, which is truthy and
  is no style sheet.
\<close>

definition object_prototype_names :: "string list" where
  "object_prototype_names =
     [''constructor'', ''__defineGetter__'', ''__defineSetter__'', ''hasOwnProperty'',
      ''__lookupGetter__'', ''__lookupSetter__'', ''isPrototypeOf'', ''propertyIsEnumerable'',
      ''toString'', ''valueOf'', ''__proto__'', ''toLocaleString'']"

text \<open>
  Ramda's \<^verbatim>\<open>R.keys\<close>, \<^verbatim>\<open>R.clone\<close> and \<^verbatim>\<open>R.assoc\<close> on such an object. \<^verbatim>\<open>R.clone\<close> copies plain
  objects, arrays, dates, regular expressions and typed arrays; every other value, so
  every \<^verbatim>\<open>CSSStyleSheet\<close>, is returned as it is. The clone is therefore a new object with
  the same properties holding the same references. \<^verbatim>\<open>R.assoc\<close> copies the properties to a
  new object and then assigns the one given.
\<close>

definition R_keys :: "CrossRootStyles \<Rightarrow> string list" where
  "R_keys obj = map fst obj"

definition R_clone :: "CrossRootStyles \<Rightarrow> CrossRootStyles" where
  "R_clone obj = map (\<lambda>(k, sheet). (k, sheet)) obj"

definition R_assoc :: "string \<Rightarrow> nat \<Rightarrow> CrossRootStyles \<Rightarrow> CrossRootStyles" where
  "R_assoc k v obj =
     (if k \<in> set (R_keys obj) then map (\<lambda>(k', v'). if k' = k then (k', v) else (k', v')) obj
      else define_own obj k v)"

text \<open>
  \<^verbatim>\<open>addStyleRule\<close>. The test \<^verbatim>\<open>!updatedStyles[selector]\<close> also sees inherited properties: for
  a selector that names one and is no own property, no sheet is created and
  \<^verbatim>\<open>updatedStyles[selector].insertRule\<close> is not a function, a \<^verbatim>\<open>TypeError\<close>. An exception
  leaves the function without a result.
\<close>

definition addStyleRule ::
  "rule_check \<Rightarrow> heap \<Rightarrow> CrossRootStyles \<Rightarrow> string \<Rightarrow> css_rule
    \<Rightarrow> error + heap \<times> CrossRootStyles" where
  "addStyleRule check h crossRootStyles sel rule =
     (let updatedStyles = R_clone crossRootStyles
      in case map_of updatedStyles sel of
           Some sheet \<Rightarrow>
             (case insertRule check h sheet (cssText rule) of
                Inl e \<Rightarrow> Inl e
              | Inr h' \<Rightarrow> Inr (h', updatedStyles))
         | None \<Rightarrow>
             if sel \<in> set object_prototype_names then Inl TypeError
             else
               (let (h1, sheet) = new_CSSStyleSheet h
                in case insertRule check h1 sheet (cssText rule) of
                     Inl e \<Rightarrow> Inl e
                   | Inr h' \<Rightarrow> Inr (h', define_own updatedStyles sel sheet)))"

text \<open>
  The reducers below take the outcome so far: once an exception is thrown, the rest of
  the loop does not run.
\<close>

fun add_rule_to ::
  "rule_check \<Rightarrow> string \<Rightarrow> error + heap \<times> CrossRootStyles \<Rightarrow> css_rule
    \<Rightarrow> error + heap \<times> CrossRootStyles" where
  "add_rule_to check sel (Inl e) rule = Inl e"
| "add_rule_to check sel (Inr (h, styles)) rule = addStyleRule check h styles sel rule"

definition processStyleSheet ::
  "rule_check \<Rightarrow> heap \<Rightarrow> css_rule list \<Rightarrow> string \<Rightarrow> CrossRootStyles
    \<Rightarrow> error + heap \<times> CrossRootStyles" where
  "processStyleSheet check h rules sel crossRootStyles =
     foldl (add_rule_to check sel) (Inr (h, crossRootStyles)) rules"

definition owner_matches :: "owner_node \<Rightarrow> bool" where
  "owner_matches owner \<longleftrightarrow> parentIsHead owner \<and> \<not> hasNoHalfLight owner"

text \<open>
  \<^verbatim>\<open>(rule as CSSMediaRule).conditionText || ""\<close>: the empty string where the rule has no
  condition text.
\<close>

definition condition_of :: "css_rule \<Rightarrow> string" where
  "condition_of rule = (case conditionText rule of None \<Rightarrow> [] | Some t \<Rightarrow> t)"

text \<open>The body of the inner \<^verbatim>\<open>R.forEach\<close>: one top-level rule of a sheet.\<close>

fun scan_rule ::
  "rule_check \<Rightarrow> error + heap \<times> CrossRootStyles \<Rightarrow> css_rule
    \<Rightarrow> error + heap \<times> CrossRootStyles" where
  "scan_rule check (Inl e) rule = Inl e"
| "scan_rule check (Inr (h, styles)) rule =
     (let ruleType = constructorName rule;
          condition = condition_of rule;
          mediaQueryResult = parseMediaQuery condition
      in if ruleType = ''CSSMediaRule'' \<and> isCrossRoot mediaQueryResult
         then processStyleSheet check h (cssRules rule) (selector mediaQueryResult) styles
         else Inr (h, styles))"

text \<open>
  The body of the outer \<^verbatim>\<open>R.reduce\<close>: one style sheet. \<^verbatim>\<open>sheet.ownerNode.matches\<close> on
  \<^verbatim>\<open>null\<close> throws a \<^verbatim>\<open>TypeError\<close>. For a sheet that passes the filter, \<^verbatim>\<open>sheet.cssRules\<close> is
  read before anything is inserted (as the argument of \<^verbatim>\<open>processStyleSheet\<close>, or else for
  the loop over the rules), and this throws when the sheet is from another origin.
\<close>

fun scan_sheet ::
  "rule_check \<Rightarrow> error + heap \<times> CrossRootStyles \<Rightarrow> style_sheet
    \<Rightarrow> error + heap \<times> CrossRootStyles" where
  "scan_sheet check (Inl e) sheet = Inl e"
| "scan_sheet check (Inr (h, styles)) sheet =
     (case ownerNode sheet of
        None \<Rightarrow> Inl TypeError
      | Some owner \<Rightarrow>
          if \<not> owner_matches owner then Inr (h, styles)
          else if crossOrigin sheet then Inl SecurityError
          else
            (let mediaQueryResult = parseMediaQuery (mediaText sheet);
                 hs = (if isCrossRoot mediaQueryResult
                       then processStyleSheet check h (sheetRules sheet)
                              (selector mediaQueryResult) styles
                       else Inr (h, styles))
             in foldl (scan_rule check) hs (sheetRules sheet)))"

definition refreshCrossRootStyles ::
  "rule_check \<Rightarrow> heap \<Rightarrow> style_sheet list \<Rightarrow> error + heap \<times> CrossRootStyles" where
  "refreshCrossRootStyles check h sheets =
     foldl (scan_sheet check) (Inr (h, createCrossRootStyles)) sheets"

subsection \<open>Stylesheet Compiler (\<^verbatim>\<open>convertToCSSStyleSheets\<close>)\<close>

text \<open>
  Reading \<^verbatim>\<open>cssRules[0].cssText\<close> of a sheet without rules is a property read on
  \<^verbatim>\<open>undefined\<close>: a \<^verbatim>\<open>TypeError\<close>.
\<close>

fun compile_selector ::
  "rule_check \<Rightarrow> CrossRootStyles \<Rightarrow> error + heap \<times> CrossRootStyles \<Rightarrow> string
    \<Rightarrow> error + heap \<times> CrossRootStyles" where
  "compile_selector check crossRootStyles (Inl e) sel = Inl e"
| "compile_selector check crossRootStyles (Inr (h, compiled)) sel =
     (let (h1, sheet) = new_CSSStyleSheet h
      in case map_of crossRootStyles sel of
           None \<Rightarrow> Inl TypeError
         | Some acc \<Rightarrow>
             (case cssRulesOf h1 acc of
                [] \<Rightarrow> Inl TypeError
              | first # _ \<Rightarrow>
                  (case insertRule check h1 sheet (''@layer --crossroot {'' @ first @ ''}'') of
                     Inl e \<Rightarrow> Inl e
                   | Inr h2 \<Rightarrow> Inr (h2, R_assoc sel sheet compiled))))"

definition convertToCSSStyleSheets ::
  "rule_check \<Rightarrow> heap \<Rightarrow> CrossRootStyles \<Rightarrow> error + heap \<times> CrossRootStyles" where
  "convertToCSSStyleSheets check h crossRootStyles =
     foldl (compile_selector check crossRootStyles) (Inr (h, createCrossRootStyles))
       (R_keys crossRootStyles)"

subsection \<open>Reset and Apply (\<^verbatim>\<open>clearShadowRootStyles\<close>, \<^verbatim>\<open>applyCrossRootStyles\<close>)\<close>

text \<open>
  \<^verbatim>\<open>element.shadowRoot!\<close> is a bare dereference at run time: on \<^verbatim>\<open>null\<close> it throws a
  \<^verbatim>\<open>TypeError\<close>. \<^verbatim>\<open>element.matches(selector)\<close> throws a \<^verbatim>\<open>SyntaxError\<close> when the string is
  no selector. A thrown error carries the page as it was at the throw.
\<close>

definition clearShadowRootStyles :: "page \<Rightarrow> nat \<Rightarrow> sheet_ref list \<Rightarrow> error \<times> page + page" where
  "clearShadowRootStyles d element initialStyleSheets =
     (case shadowRoot d element of
        None \<Rightarrow> Inl (TypeError, d)
      | Some sr \<Rightarrow> Inr (d\<lparr>adoptedStyleSheets := (adoptedStyleSheets d)(sr := initialStyleSheets)\<rparr>))"

fun apply_selector ::
  "nat \<Rightarrow> CrossRootStyles \<Rightarrow> error \<times> page + page \<Rightarrow> string \<Rightarrow> error \<times> page + page" where
  "apply_selector element crossRootStyles (Inl x) sel = Inl x"
| "apply_selector element crossRootStyles (Inr d) sel =
     (if \<not> isSelector d sel then Inl (SyntaxError, d)
      else if matchesSel d element sel then
        (case shadowRoot d element of
           None \<Rightarrow> Inl (TypeError, d)
         | Some sr \<Rightarrow>
             (case map_of crossRootStyles sel of
                None \<Rightarrow> Inl (TypeError, d)
              | Some sheet \<Rightarrow>
                  Inr (d\<lparr>adoptedStyleSheets :=
                         (adoptedStyleSheets d)(sr := adoptedStyleSheets d sr @ [Own sheet])\<rparr>)))
      else Inr d)"

definition applyCrossRootStyles :: "page \<Rightarrow> nat \<Rightarrow> CrossRootStyles \<Rightarrow> error \<times> page + page" where
  "applyCrossRootStyles d element crossRootStyles =
     foldl (apply_selector element crossRootStyles) (Inr d) (R_keys crossRootStyles)"

subsection \<open>A sync pass (\<^verbatim>\<open>initializeStyles\<close>)\<close>

fun sync_element ::
  "(nat \<Rightarrow> sheet_ref list option) \<Rightarrow> CrossRootStyles \<Rightarrow> error \<times> page + page \<Rightarrow> nat
    \<Rightarrow> error \<times> page + page" where
  "sync_element initialShadowRootStyles styleSheetMap (Inl x) element = Inl x"
| "sync_element initialShadowRootStyles styleSheetMap (Inr d) element =
     (case clearShadowRootStyles d element
             (case initialShadowRootStyles element of None \<Rightarrow> [] | Some l \<Rightarrow> l) of
        Inl x \<Rightarrow> Inl x
      | Inr d1 \<Rightarrow> applyCrossRootStyles d1 element styleSheetMap)"

text \<open>
  The argument \<open>sheets\<close> is an array of references: the scan reads what the sheet objects
  hold when the pass runs. When the scan or the compiler throws, the sheets constructed so
  far are referred to by nothing and the page is as before.
\<close>

definition initializeStyles ::
  "page \<Rightarrow> nat list \<Rightarrow> nat list \<Rightarrow> (nat \<Rightarrow> sheet_ref list option)
    \<Rightarrow> error \<times> page + page" where
  "initializeStyles d sheets stylable initialShadowRootStyles =
     (case refreshCrossRootStyles (insertRuleCheck d) (sheetHeap d) (map (sheetObject d) sheets) of
        Inl e \<Rightarrow> Inl (e, d)
      | Inr (h1, crossRootStyles) \<Rightarrow>
          (case convertToCSSStyleSheets (insertRuleCheck d) h1 crossRootStyles of
             Inl e \<Rightarrow> Inl (e, d)
           | Inr (h2, styleSheetMap) \<Rightarrow>
               foldl (sync_element initialShadowRootStyles styleSheetMap)
                 (Inr (d\<lparr>sheetHeap := h2\<rparr>)) stylable))"

subsection \<open>The script's state\<close>

text \<open>
  The variables \<^verbatim>\<open>main\<close> declares and its closures capture, the callbacks waiting for the
  next animation frame, and the errors no handler caught:
  \<^item> \<open>crossRootStylesVar\<close>, \<open>stylableElements\<close>, \<open>initialShadowRootStyles\<close>, \<open>styleSheetsVar\<close>:
    \<^verbatim>\<open>crossRootStyles\<close>, \<^verbatim>\<open>stylableElements\<close> (a \<^verbatim>\<open>Set\<close>, in insertion order),
    \<^verbatim>\<open>initialShadowRootStyles\<close> and \<^verbatim>\<open>styleSheets\<close> (an array of references to sheet
    objects) of \<^verbatim>\<open>main\<close>;
  \<^item> \<open>liveUpdateEnabled\<close>: the argument \<^verbatim>\<open>wrapAttachShadow\<close> was installed with;
  \<^item> \<open>observing\<close>: the mutation observer exists and is connected;
  \<^item> \<open>scriptVar\<close>, \<open>listening\<close>: \<^verbatim>\<open>script\<close> of the first frame callback, and whether the
    \<^verbatim>\<open>DOMContentLoaded\<close> listener is registered.
\<close>

datatype callback = MainFrame | AttachFrame nat nat

record state =
  doc :: page
  crossRootStylesVar :: CrossRootStyles
  stylableElements :: "nat list"
  initialShadowRootStyles :: "nat \<Rightarrow> sheet_ref list option"
  styleSheetsVar :: "nat list"
  liveUpdateEnabled :: bool
  observing :: bool
  scriptVar :: "script_element option"
  listening :: bool
  frameCallbacks :: "callback list"
  uncaught :: "error list"

definition with_doc :: "state \<Rightarrow> error \<times> page + page \<Rightarrow> error \<times> state + state" where
  "with_doc s r = (case r of Inl (e, d) \<Rightarrow> Inl (e, s\<lparr>doc := d\<rparr>) | Inr d \<Rightarrow> Inr (s\<lparr>doc := d\<rparr>))"

text \<open>
  \<^verbatim>\<open>initCallback\<close> of \<^verbatim>\<open>main\<close>:
  \<^verbatim>\<open>() => initializeStyles(styleSheets, stylableElements, initialShadowRootStyles)\<close>.
\<close>

definition initCallback :: "state \<Rightarrow> error \<times> state + state" where
  "initCallback s =
     with_doc s
       (initializeStyles (doc s) (styleSheetsVar s) (stylableElements s) (initialShadowRootStyles s))"

text \<open>
  \<^verbatim>\<open>handleDOMContentLoaded(script, observer, stylableElements)\<close>. \<^verbatim>\<open>script.hasAttribute\<close> on
  \<^verbatim>\<open>null\<close> throws.
\<close>

definition handleDOMContentLoaded :: "script_element option \<Rightarrow> state \<Rightarrow> error \<times> state + state" where
  "handleDOMContentLoaded sc s =
     (case sc of
        None \<Rightarrow> Inl (TypeError, s)
      | Some el \<Rightarrow>
          if disableLiveHalfLight el then Inr (s\<lparr>observing := False, stylableElements := []\<rparr>)
          else Inr s)"

text \<open>
  The callback \<^verbatim>\<open>main\<close> hands to \<^verbatim>\<open>requestAnimationFrame\<close>: a sync pass, then the observer
  is created, \<^verbatim>\<open>document.currentScript\<close> is read and the \<^verbatim>\<open>DOMContentLoaded\<close> listener is
  registered.
\<close>

definition mainFrame :: "state \<Rightarrow> error \<times> state + state" where
  "mainFrame s =
     (case initCallback s of
        Inl x \<Rightarrow> Inl x
      | Inr s1 \<Rightarrow>
          Inr (s1\<lparr>observing := True, scriptVar := currentScript (doc s1), listening := True\<rparr>))"

text \<open>
  The platform's \<^verbatim>\<open>attachShadow\<close>: it throws (here \<open>None\<close>) when the element already hosts a
  shadow root; otherwise the new shadow root \<open>sr\<close> is attached, with no parent and an empty
  adopted list.
\<close>

definition originalAttachShadow :: "page \<Rightarrow> nat \<Rightarrow> shadow_mode \<Rightarrow> nat \<Rightarrow> page option" where
  "originalAttachShadow d this mode sr =
     (case attachedShadow d this of
        Some _ \<Rightarrow> None
      | None \<Rightarrow>
          Some (d\<lparr>attachedShadow := (attachedShadow d)(this := Some (mode, sr)),
                  shadowHost := (shadowHost d)(sr := Some this),
                  parentElement := (parentElement d)(sr := None),
                  adoptedStyleSheets := (adoptedStyleSheets d)(sr := [])\<rparr>))"

text \<open>
  The function \<^verbatim>\<open>wrapAttachShadow\<close> installs. An exception of the original propagates to
  the caller and nothing is scheduled.
\<close>

definition attachShadow :: "state \<Rightarrow> nat \<Rightarrow> shadow_mode \<Rightarrow> nat \<Rightarrow> state" where
  "attachShadow s this mode sr =
     (case originalAttachShadow (doc s) this mode sr of
        None \<Rightarrow> s
      | Some d \<Rightarrow>
          if mode \<noteq> Open then s\<lparr>doc := d\<rparr>
          else s\<lparr>doc := d, frameCallbacks := frameCallbacks s @ [AttachFrame this sr]\<rparr>)"

definition set_add :: "nat list \<Rightarrow> nat \<Rightarrow> nat list" where
  "set_add xs x = (if x \<in> set xs then xs else xs @ [x])"

text \<open>
  The callback the wrapper hands to \<^verbatim>\<open>requestAnimationFrame\<close>, for the host \<open>this\<close> and its
  new shadow root. \<open>None\<close>: the dark-root walk does not return.
\<close>

definition attachFrame :: "nat \<Rightarrow> nat \<Rightarrow> state \<Rightarrow> (error \<times> state + state) option" where
  "attachFrame this sr s =
     (case isInDarkRoot (doc s) sr of
        None \<Rightarrow> None
      | Some dark \<Rightarrow>
          Some (if dark then Inr s
                else
                  (let s1 = (if liveUpdateEnabled s
                             then s\<lparr>stylableElements := set_add (stylableElements s) this\<rparr>
                             else s);
                       s2 = s1\<lparr>initialShadowRootStyles :=
                                 (initialShadowRootStyles s1)
                                   (this := Some (adoptedStyleSheets (doc s1) sr))\<rparr>
                   in with_doc s2 (applyCrossRootStyles (doc s2) this (crossRootStylesVar s2)))))"

text \<open>
  \<^verbatim>\<open>main\<close>, run on the page as the script finds it. \<^verbatim>\<open>wrapAttachShadow\<close> is installed with
  \<^verbatim>\<open>liveUpdateEnabled = true\<close> and with the object \<^verbatim>\<open>crossRootStyles\<close> of \<^verbatim>\<open>main\<close>.
\<close>

definition main :: "page \<Rightarrow> state" where
  "main d =
     \<lparr> doc = d,
       crossRootStylesVar = createCrossRootStyles,
       stylableElements = [],
       initialShadowRootStyles = (\<lambda>_. None),
       styleSheetsVar = styleSheets d,
       liveUpdateEnabled = True,
       observing = False,
       scriptVar = None,
       listening = False,
       frameCallbacks = [MainFrame],
       uncaught = [] \<rparr>"

text \<open>
  The platform executing the script element \<open>sc\<close>: \<^verbatim>\<open>document.currentScript\<close> is that
  element while the script runs, and \<^verbatim>\<open>null\<close> again once it has returned, so also in every
  callback that runs later.
\<close>

definition execute_script :: "page \<Rightarrow> script_element \<Rightarrow> state" where
  "execute_script d sc =
     (let s = main (d\<lparr>currentScript := Some sc\<rparr>)
      in s\<lparr>doc := (doc s)\<lparr>currentScript := None\<rparr>\<rparr>)"

subsection \<open>Events\<close>

text \<open>
  What happens on the page after the script has run:
  \<^item> \<open>AttachShadow e mode sr\<close>: page code calls \<^verbatim>\<open>e.attachShadow({mode})\<close>, the platform
    creates the shadow root \<open>sr\<close>;
  \<^item> \<open>AnimationFrame\<close>: the callbacks waiting for the frame run, in the order they were
    requested;
  \<^item> \<open>HeadMutation sheets objs\<close>: a mutation under \<^verbatim>\<open>document.head\<close>, after which the
    document's style sheets are \<open>sheets\<close> and the sheet objects hold \<open>objs\<close>; a connected
    observer calls \<^verbatim>\<open>initCallback\<close>;
  \<^item> \<open>DOMContentLoaded\<close>: the event fires;
  \<^item> \<open>PageAdopt sr refs\<close>: page code assigns the adopted list of the shadow root \<open>sr\<close>;
  \<^item> \<open>DomChange\<close>: page code changes the tree, the darkened markers, what matches.
  An exception no handler catches is reported and the event loop goes on.
\<close>

datatype event =
    AttachShadow nat shadow_mode nat
  | AnimationFrame
  | HeadMutation "nat list" "nat \<Rightarrow> style_sheet"
  | DOMContentLoaded
  | PageAdopt nat "sheet_ref list"
  | DomChange "nat \<Rightarrow> nat option" "nat \<Rightarrow> bool" "nat \<Rightarrow> bool" "nat \<Rightarrow> string \<Rightarrow> bool"

definition report :: "error \<times> state + state \<Rightarrow> state" where
  "report r = (case r of Inl (e, s) \<Rightarrow> s\<lparr>uncaught := uncaught s @ [e]\<rparr> | Inr s \<Rightarrow> s)"

fun run_callback :: "callback \<Rightarrow> state \<Rightarrow> (error \<times> state + state) option" where
  "run_callback MainFrame s = Some (mainFrame s)"
| "run_callback (AttachFrame this sr) s = attachFrame this sr s"

fun run_callbacks :: "callback list \<Rightarrow> state \<Rightarrow> state option" where
  "run_callbacks [] s = Some s"
| "run_callbacks (c # cs) s =
     (case run_callback c s of None \<Rightarrow> None | Some r \<Rightarrow> run_callbacks cs (report r))"

fun step :: "state \<Rightarrow> event \<Rightarrow> state option" where
  "step s (AttachShadow e mode sr) = Some (attachShadow s e mode sr)"
| "step s AnimationFrame = run_callbacks (frameCallbacks s) (s\<lparr>frameCallbacks := []\<rparr>)"
| "step s (HeadMutation sheets objs) =
     (let s1 = s\<lparr>doc := (doc s)\<lparr>styleSheets := sheets, sheetObject := objs\<rparr>\<rparr>
      in Some (if observing s1 then report (initCallback s1) else s1))"
| "step s DOMContentLoaded =
     Some (if listening s then report (handleDOMContentLoaded (scriptVar s) s) else s)"
| "step s (PageAdopt sr refs) =
     Some (s\<lparr>doc := (doc s)\<lparr>adoptedStyleSheets := (adoptedStyleSheets (doc s))(sr := refs)\<rparr>\<rparr>)"
| "step s (DomChange par attr prop mt) =
     Some (s\<lparr>doc := (doc s)\<lparr>parentElement := par, hasDarkenedAttr := attr,
                              darkenedProp := prop, matchesSel := mt\<rparr>\<rparr>)"

fun run :: "state \<Rightarrow> event list \<Rightarrow> state option" where
  "run s [] = Some s"
| "run s (ev # evs) = (case step s ev of None \<Rightarrow> None | Some s1 \<Rightarrow> run s1 evs)"

text \<open>The states the script can be in: after it has run on some page, and after any event.\<close>

inductive reachable :: "state \<Rightarrow> bool" where
  start: "reachable (execute_script d sc)"
| after: "reachable s \<Longrightarrow> step s ev = Some s' \<Longrightarrow> reachable s'"

text \<open>\<open>n\<close> sync passes in a row, nothing else happening in between.\<close>

fun passes :: "nat \<Rightarrow> state \<Rightarrow> error \<times> state + state" where
  "passes 0 s = Inr s"
| "passes (Suc n) s = (case initCallback s of Inl x \<Rightarrow> Inl x | Inr s1 \<Rightarrow> passes n s1)"

subsection \<open>What a scan extracts\<close>

text \<open>
  The insertions a scan that returns has performed, in the order it performs them, as
  pairs of the selector and the rule whose text is inserted: those of one top-level rule,
  of one sheet (none unless its owner node passes the filter: it is \<open>scanned\<close>), of the
  whole list of sheets.
\<close>

definition rule_insertions :: "css_rule \<Rightarrow> (string \<times> css_rule) list" where
  "rule_insertions rule =
     (let mq = parseMediaQuery (condition_of rule)
      in if constructorName rule = ''CSSMediaRule'' \<and> isCrossRoot mq
         then map (Pair (selector mq)) (cssRules rule)
         else [])"

definition scanned :: "style_sheet \<Rightarrow> bool" where
  "scanned sheet \<longleftrightarrow> (case ownerNode sheet of None \<Rightarrow> False | Some owner \<Rightarrow> owner_matches owner)"

definition sheet_insertions :: "style_sheet \<Rightarrow> (string \<times> css_rule) list" where
  "sheet_insertions sheet =
     (if \<not> scanned sheet then []
      else
        (let mq = parseMediaQuery (mediaText sheet)
         in (if isCrossRoot mq then map (Pair (selector mq)) (sheetRules sheet) else [])
            @ concat (map rule_insertions (sheetRules sheet))))"

definition insertions :: "style_sheet list \<Rightarrow> (string \<times> css_rule) list" where
  "insertions sheets = concat (map sheet_insertions sheets)"

fun insert_pair ::
  "rule_check \<Rightarrow> error + heap \<times> CrossRootStyles \<Rightarrow> string \<times> css_rule
    \<Rightarrow> error + heap \<times> CrossRootStyles" where
  "insert_pair check (Inl e) j = Inl e"
| "insert_pair check (Inr (h, styles)) (sel, rule) = addStyleRule check h styles sel rule"

text \<open>The exception a sheet makes the scan throw before anything of it is inserted.\<close>

definition sheet_fault :: "style_sheet \<Rightarrow> error option" where
  "sheet_fault sheet =
     (case ownerNode sheet of
        None \<Rightarrow> Some TypeError
      | Some owner \<Rightarrow> if owner_matches owner \<and> crossOrigin sheet then Some SecurityError else None)"

text \<open>
  The selectors of a list of insertions in the order of their first occurrence, and the
  texts inserted for one selector, the latest first.
\<close>

definition first_occurrences :: "string list \<Rightarrow> string list" where
  "first_occurrences ks = rev (remdups (rev ks))"

definition selectors_of :: "(string \<times> css_rule) list \<Rightarrow> string list" where
  "selectors_of js = first_occurrences (map fst js)"

definition texts_of :: "(string \<times> css_rule) list \<Rightarrow> string \<Rightarrow> string list" where
  "texts_of js k = rev (map (\<lambda>j. cssText (snd j)) (filter (\<lambda>j. fst j = k) js))"

text \<open>
  The keys after a new one is defined, the object and the keys that a sequence of
  definitions builds from the empty object, and what it is for a list of keys to be in
  the order of enumeration.
\<close>

fun place :: "string list \<Rightarrow> string \<Rightarrow> string list" where
  "place [] k = [k]"
| "place (k' # ks) k =
     (if is_array_index k \<and> (is_array_index k' \<longrightarrow> index_value k < index_value k')
      then k # k' # ks
      else k' # place ks k)"

definition enum_keys :: "string list \<Rightarrow> string list" where
  "enum_keys ks = foldl place [] ks"

definition object_of :: "(string \<times> nat) list \<Rightarrow> CrossRootStyles" where
  "object_of xs = foldl (\<lambda>obj x. define_own obj (fst x) (snd x)) [] xs"

fun enum_ordered :: "string list \<Rightarrow> bool" where
  "enum_ordered [] = True"
| "enum_ordered [k] = True"
| "enum_ordered (k # k' # ks) =
     ((is_array_index k' \<longrightarrow> is_array_index k \<and> index_value k \<le> index_value k')
      \<and> enum_ordered (k' # ks))"

subsection \<open>Notions the statements use\<close>

text \<open>
  The heap and the object after the insertions \<open>js\<close> into an empty object: one new sheet
  per selector, at consecutive addresses in the order in which the selectors first occur,
  holding the texts inserted for it.
\<close>

definition extracted :: "heap \<Rightarrow> (string \<times> css_rule) list \<Rightarrow> heap \<times> CrossRootStyles" where
  "extracted h js =
     (h @ map (texts_of js) (selectors_of js),
      object_of (zip (selectors_of js) [length h ..< length h + length (selectors_of js)]))"

text \<open>
  Whether a sheet holding \<open>rules\<close> takes the text, and whether the insertion \<open>j\<close> goes
  through after the insertions \<open>js\<close>: its selector has an accumulator already or names no
  inherited property, and the accumulator takes the text.
\<close>

definition takes :: "rule_check \<Rightarrow> string list \<Rightarrow> string \<Rightarrow> bool" where
  "takes check rules text \<longleftrightarrow>
     (if rules = [] \<and> is_layer_block text then None else check rules text) = None"

definition insertion_ok :: "rule_check \<Rightarrow> (string \<times> css_rule) list \<Rightarrow> string \<times> css_rule \<Rightarrow> bool" where
  "insertion_ok check js j \<longleftrightarrow>
     (fst j \<in> fst ` set js \<or> fst j \<notin> set object_prototype_names)
     \<and> takes check (texts_of js (fst j)) (cssText (snd j))"

text \<open>All the insertions \<open>js\<close> go through, each after the ones before it.\<close>

definition insertions_ok :: "rule_check \<Rightarrow> (string \<times> css_rule) list \<Rightarrow> bool" where
  "insertions_ok check js \<longleftrightarrow> (\<forall>n < length js. insertion_ok check (take n js) (js ! n))"

text \<open>The one rule of the compiled sheet for an accumulator with the rule list \<open>ts\<close>.\<close>

definition compiled_rules :: "string list \<Rightarrow> string list" where
  "compiled_rules ts = [''@layer --crossroot {'' @ ts ! 0 @ ''}'']"

text \<open>The page an outcome holds, returned or thrown.\<close>

definition outcome_page :: "error \<times> page + page \<Rightarrow> page" where
  "outcome_page r = (case r of Inl (e, d) \<Rightarrow> d | Inr d \<Rightarrow> d)"

text \<open>The exception an outcome was thrown with.\<close>

definition thrown :: "error \<times> page + page \<Rightarrow> error option" where
  "thrown r = (case r of Inl (e, d) \<Rightarrow> Some e | Inr d \<Rightarrow> None)"

text \<open>
  Two pages with the same shadow roots, the same selectors and matching, the same sheet
  objects, the same heap and the same decisions on rules.
\<close>

definition same_shape :: "page \<Rightarrow> page \<Rightarrow> bool" where
  "same_shape d d' \<longleftrightarrow>
     attachedShadow d' = attachedShadow d \<and> matchesSel d' = matchesSel d
     \<and> isSelector d' = isSelector d \<and> insertRuleCheck d' = insertRuleCheck d
     \<and> sheetObject d' = sheetObject d \<and> sheetHeap d' = sheetHeap d"

text \<open>The references Apply appends for the selectors \<open>ks\<close>, in their order.\<close>

definition matching_refs :: "page \<Rightarrow> nat \<Rightarrow> CrossRootStyles \<Rightarrow> string list \<Rightarrow> sheet_ref list" where
  "matching_refs d e C ks =
     concat (map (\<lambda>k. case map_of C k of None \<Rightarrow> [] | Some a \<Rightarrow> [Own a]) (filter (matchesSel d e) ks))"

text \<open>The baseline recorded for a host: \<^verbatim>\<open>initialShadowRootStyles.get(element) || []\<close>.\<close>

definition baseline :: "(nat \<Rightarrow> sheet_ref list option) \<Rightarrow> nat \<Rightarrow> sheet_ref list" where
  "baseline init e = (case init e of None \<Rightarrow> [] | Some l \<Rightarrow> l)"

text \<open>The rule list a reference points to, when it is a sheet of this script's.\<close>

definition rules_of_ref :: "heap \<Rightarrow> sheet_ref \<Rightarrow> string list option" where
  "rules_of_ref h r = (case r of Own a \<Rightarrow> Some (cssRulesOf h a) | Foreign _ \<Rightarrow> None)"

text \<open>
  What the pipeline compiles from the sheets, told from a run on an empty heap: the
  selectors of the compiled map in its order, and the rule list of the sheet compiled for
  a selector (nothing when the scan throws).
\<close>

definition compiled_selectors :: "rule_check \<Rightarrow> style_sheet list \<Rightarrow> string list" where
  "compiled_selectors check sheets =
     (case refreshCrossRootStyles check [] sheets of
        Inl _ \<Rightarrow> []
      | Inr (h1, styles) \<Rightarrow>
          (case convertToCSSStyleSheets check h1 styles of
             Inl _ \<Rightarrow> []
           | Inr (h2, compiled) \<Rightarrow> R_keys compiled))"

definition compiled_sheet_rules :: "rule_check \<Rightarrow> style_sheet list \<Rightarrow> string \<Rightarrow> string list" where
  "compiled_sheet_rules check sheets k =
     (case refreshCrossRootStyles check [] sheets of
        Inl _ \<Rightarrow> []
      | Inr (h1, styles) \<Rightarrow>
          (case convertToCSSStyleSheets check h1 styles of
             Inl _ \<Rightarrow> []
           | Inr (h2, compiled) \<Rightarrow>
               (case map_of compiled k of None \<Rightarrow> [] | Some a \<Rightarrow> cssRulesOf h2 a)))"

text \<open>
  The two stages of a pass in closed form: from the heap \<open>h\<close>, the insertions \<open>js\<close> give
  the accumulators, then one compiled sheet per selector, in the order in which the keys
  of the object are enumerated.
\<close>

definition compiled_heap :: "heap \<Rightarrow> (string \<times> css_rule) list \<Rightarrow> heap" where
  "compiled_heap h js =
     (h @ map (texts_of js) (selectors_of js))
       @ map (\<lambda>k. compiled_rules (texts_of js k)) (enum_keys (selectors_of js))"

definition compiled_map :: "heap \<Rightarrow> (string \<times> css_rule) list \<Rightarrow> CrossRootStyles" where
  "compiled_map h js =
     zip (enum_keys (selectors_of js))
       [length h + length (selectors_of js) ..<
        length h + length (selectors_of js) + length (selectors_of js)]"

text \<open>What a sync pass leaves as it was, whether it returns or throws.\<close>

definition same_script :: "state \<Rightarrow> state \<Rightarrow> bool" where
  "same_script s s' \<longleftrightarrow>
     stylableElements s' = stylableElements s
     \<and> initialShadowRootStyles s' = initialShadowRootStyles s
     \<and> styleSheetsVar s' = styleSheetsVar s
     \<and> crossRootStylesVar s' = crossRootStylesVar s
     \<and> sheetObject (doc s') = sheetObject (doc s)
     \<and> frameCallbacks s' = frameCallbacks s
     \<and> attachedShadow (doc s') = attachedShadow (doc s)
     \<and> matchesSel (doc s') = matchesSel (doc s)
     \<and> isSelector (doc s') = isSelector (doc s)
     \<and> insertRuleCheck (doc s') = insertRuleCheck (doc s)"

text \<open>The sheets of the list \<^verbatim>\<open>main\<close> captured, as the sheet objects are at present.\<close>

definition captured_sheets :: "state \<Rightarrow> style_sheet list" where
  "captured_sheets s = map (sheetObject (doc s)) (styleSheetsVar s)"

definition tracked_ok :: "state \<Rightarrow> bool" where
  "tracked_ok s \<longleftrightarrow> (\<forall>e \<in> set (stylableElements s). shadowRoot (doc s) e \<noteq> None)"

text \<open>
  The invariant: every tracked host has an open shadow root attached, and so has the host
  of every callback that waits for the next frame; and the map the wrapper applies is the
  empty one \<^verbatim>\<open>main\<close> created.
\<close>

definition callback_ok :: "page \<Rightarrow> callback \<Rightarrow> bool" where
  "callback_ok d c =
     (case c of MainFrame \<Rightarrow> True | AttachFrame e sr \<Rightarrow> attachedShadow d e = Some (Open, sr))"

definition hosts_open :: "state \<Rightarrow> bool" where
  "hosts_open s \<longleftrightarrow>
     (\<forall>e \<in> set (stylableElements s). \<exists>sr. attachedShadow (doc s) e = Some (Open, sr))"

definition invariant :: "state \<Rightarrow> bool" where
  "invariant s \<longleftrightarrow>
     hosts_open s \<and> (\<forall>c \<in> set (frameCallbacks s). callback_ok (doc s) c)
     \<and> crossRootStylesVar s = createCrossRootStyles"

subsection \<open>A small page\<close>

text \<open>
  The platform of the examples: of the strings that occur in them, \<^verbatim>\<open>*\<close> and \<^verbatim>\<open>.widget\<close> are
  selectors and \<^verbatim>\<open>..x\<close> is none; a constructed sheet refuses \<^verbatim>\<open>@import\<close> rules.
\<close>

definition example_selector :: "string \<Rightarrow> bool" where
  "example_selector s \<longleftrightarrow> s = ''*'' \<or> s = ''.widget''"

definition example_check :: rule_check where
  "example_check rules text = (if prefix ''@import'' text then Some SyntaxError else None)"

text \<open>
  The root element 0 has a child 1, which has a child 2; element 2 hosts the open shadow
  root 5, and element 3 inside that shadow root (its parent is \<^verbatim>\<open>null\<close>: it is a child of
  the shadow root) hosts the shadow root 6 and carries the darkened attribute.
\<close>

definition example_page :: page where
  "example_page =
     \<lparr> parentElement = (\<lambda>n. if n = 2 then Some 1 else if n = 1 then Some 0 else None),
       shadowHost = (\<lambda>n. if n = 5 then Some 2 else if n = 6 then Some 3 else None),
       hasDarkenedAttr = (\<lambda>n. n = 3),
       darkenedProp = (\<lambda>n. False),
       documentElement = 0,
       attachedShadow =
         (\<lambda>n. if n = 2 then Some (Open, 5) else if n = 3 then Some (Open, 6) else None),
       adoptedStyleSheets = (\<lambda>n. []),
       isSelector = example_selector,
       matchesSel = (\<lambda>n s. False),
       insertRuleCheck = example_check,
       styleSheets = [],
       sheetObject = (\<lambda>n. \<lparr> ownerNode = Some \<lparr> parentIsHead = True, hasNoHalfLight = False \<rparr>,
                            crossOrigin = False, mediaText = [], sheetRules = [] \<rparr>),
       currentScript = None,
       sheetHeap = [] \<rparr>"

subsection \<open>Some style sheets\<close>

text \<open>
  Two style rules; a media group marked \<^verbatim>\<open>--crossroot(.widget)\<close> that holds the first;
  groups marked \<^verbatim>\<open>--crossroot(toString)\<close>, \<^verbatim>\<open>--crossroot(..x)\<close> and \<^verbatim>\<open>--crossroot(7)\<close>; an
  \<^verbatim>\<open>@import\<close> rule; the
  widget group nested in a \<^verbatim>\<open>@supports\<close> group and in a plain \<^verbatim>\<open>@media screen\<close> group; and
  a sheet of the page's origin owned by a child of \<^verbatim>\<open>head\<close>, with a given media text and
  rule list.
\<close>

definition red_rule :: css_rule where
  "red_rule = CssRule ''CSSStyleRule'' None ''p { color: red; }'' []"

definition blue_rule :: css_rule where
  "blue_rule = CssRule ''CSSStyleRule'' None ''p { color: blue; }'' []"

definition widget_group :: css_rule where
  "widget_group =
     CssRule ''CSSMediaRule'' (Some ''--crossroot(.widget)'')
       ''@media --crossroot(.widget) { p { color: red; } }'' [red_rule]"

definition prototype_group :: css_rule where
  "prototype_group =
     CssRule ''CSSMediaRule'' (Some ''--crossroot(toString)'')
       ''@media --crossroot(toString) { p { color: red; } }'' [red_rule]"

definition broken_group :: css_rule where
  "broken_group =
     CssRule ''CSSMediaRule'' (Some ''--crossroot(..x)'')
       ''@media --crossroot(..x) { p { color: blue; } }'' [blue_rule]"

definition numeric_group :: css_rule where
  "numeric_group =
     CssRule ''CSSMediaRule'' (Some ''--crossroot(7)'')
       ''@media --crossroot(7) { p { color: blue; } }'' [blue_rule]"

definition import_rule :: css_rule where
  "import_rule = CssRule ''CSSImportRule'' None ''@import url(theme.css);'' []"



definition head_sheet :: "string \<Rightarrow> css_rule list \<Rightarrow> style_sheet" where
  "head_sheet media rules =
     \<lparr> ownerNode = Some \<lparr> parentIsHead = True, hasNoHalfLight = False \<rparr>,
       crossOrigin = False, mediaText = media, sheetRules = rules \<rparr>"

subsection \<open>A page with a widget\<close>

text \<open>
  The small page with given style sheets (all sheet objects hold \<open>sheet\<close>), where element 1
  (a child of the root element, hosting no shadow root yet) matches \<^verbatim>\<open>.widget\<close> and every
  element matches \<^verbatim>\<open>*\<close>.
\<close>

definition widget_page :: "nat list \<Rightarrow> style_sheet \<Rightarrow> page" where
  "widget_page sheets sheet =
     example_page\<lparr>matchesSel := (\<lambda>n s. s = ''*'' \<or> (n = 1 \<and> s = ''.widget'')),
                  styleSheets := sheets, sheetObject := (\<lambda>n. sheet)\<rparr>"

section \<open>Properties\<close>

subsection \<open>Facts about the Marker Parser\<close>

lemma length_marker: "length marker = 11"
  by (simp add: marker_def)

lemma search_marker_None: "search_marker s = None \<longleftrightarrow> \<not> sublist marker s"
proof (induction s)
  case Nil
  then show ?case by (simp add: marker_def)
next
  case (Cons c cs)
  have "marker \<noteq> []" by (simp add: marker_def)
  then show ?case using Cons by (simp add: sublist_Cons_right)
qed

lemma prefix_marker_overlap:
  assumes "prefix marker (c # pre @ marker @ post)"
  shows "prefix marker (c # pre @ butlast marker)"
proof -
  have "take 11 (c # pre @ marker @ post) = marker"
    using assms length_marker by (metis append_eq_conv_conj prefix_def)
  moreover have "take 11 (c # pre @ marker @ post) = take 11 (c # pre @ butlast marker)"
    by (simp add: marker_def take_Cons')
  ultimately have "take 11 (c # pre @ butlast marker) = marker" by simp
  then show ?thesis by (metis take_is_prefix)
qed

lemma search_marker_first:
  "\<not> sublist marker (pre @ butlast marker) \<Longrightarrow> search_marker (pre @ marker @ post) = Some post"
proof (induction pre)
  case Nil
  then show ?case by (simp add: marker_def)
next
  case (Cons c pre)
  have "\<not> prefix marker (c # pre @ butlast marker)"
    using Cons.prems by (metis append_Cons prefix_imp_sublist)
  then have "\<not> prefix marker (c # pre @ marker @ post)"
    using prefix_marker_overlap by blast
  moreover have "\<not> sublist marker (pre @ butlast marker)"
    using Cons.prems by (simp add: sublist_Cons_right)
  ultimately show ?case using Cons.IH by simp
qed

lemma regex_group:
  "search_marker s = Some post \<Longrightarrow> \<exists>whole. regex_match s = Some [whole, marker_argument post]"
  by (cases post) (simp_all add: regex_match_def marker_argument_def Let_def)

text \<open>
  Claim C3, as the code has it. The parser reports cross-root exactly when the condition
  contains the token \<^verbatim>\<open>--crossroot\<close> somewhere; no parenthesis is needed. Where the token
  first occurs, the selector is the text after it (less one opening parenthesis) up to the
  first closing parenthesis, when that text is not blank, and \<^verbatim>\<open>*\<close> otherwise. The four
  examples of the specification come out as it says.
\<close>

theorem parseMediaQuery_spec:
  "(isCrossRoot (parseMediaQuery c) \<longleftrightarrow> sublist ''--crossroot'' c)
   \<and> (c = pre @ ''--crossroot'' @ post \<and> \<not> sublist ''--crossroot'' (pre @ ''--crossroo'')
        \<longrightarrow> selector (parseMediaQuery c) =
            (if trim (marker_argument post) = [] then ''*'' else marker_argument post))
   \<and> parseMediaQuery ''--crossroot'' = \<lparr> isCrossRoot = True, selector = ''*'' \<rparr>
   \<and> parseMediaQuery ''--crossroot(.card)'' = \<lparr> isCrossRoot = True, selector = ''.card'' \<rparr>
   \<and> parseMediaQuery ''--crossroot(  )'' = \<lparr> isCrossRoot = True, selector = ''*'' \<rparr>
   \<and> \<not> isCrossRoot (parseMediaQuery ''screen and (min-width: 10px)'')"
proof -
  have a: "isCrossRoot (parseMediaQuery c) \<longleftrightarrow> sublist ''--crossroot'' c"
  proof -
    have "regex_match c \<noteq> None \<longleftrightarrow> sublist marker c"
      using search_marker_None [of c]
      by (cases "search_marker c") (simp_all add: regex_match_def Let_def)
    moreover have "c = marker \<Longrightarrow> sublist marker c" by simp
    ultimately show ?thesis
      by (auto simp: parseMediaQuery_def Let_def marker_def)
  qed
  have b: "selector (parseMediaQuery c) =
      (if trim (marker_argument post) = [] then ''*'' else marker_argument post)"
    if "c = pre @ ''--crossroot'' @ post" "\<not> sublist ''--crossroot'' (pre @ ''--crossroo'')"
  proof -
    have "butlast marker = ''--crossroo''" by (simp add: marker_def)
    then have "search_marker c = Some post"
      using that search_marker_first [of pre post] by (simp add: marker_def)
    then obtain whole where "regex_match c = Some [whole, marker_argument post]"
      using regex_group by blast
    then show ?thesis by (simp add: parseMediaQuery_def Let_def)
  qed
  have e1: "parseMediaQuery ''--crossroot'' = \<lparr> isCrossRoot = True, selector = ''*'' \<rparr>"
    by (simp add: parseMediaQuery_def regex_match_def marker_def trim_def Let_def)
  have e2: "parseMediaQuery ''--crossroot(.card)'' = \<lparr> isCrossRoot = True, selector = ''.card'' \<rparr>"
    by (simp add: parseMediaQuery_def regex_match_def marker_def trim_def is_js_space_def Let_def)
  have e3: "parseMediaQuery ''--crossroot(  )'' = \<lparr> isCrossRoot = True, selector = ''*'' \<rparr>"
    by (simp add: parseMediaQuery_def regex_match_def marker_def trim_def is_js_space_def Let_def)
  have e4: "\<not> isCrossRoot (parseMediaQuery ''screen and (min-width: 10px)'')"
    by (simp add: parseMediaQuery_def regex_match_def marker_def Let_def)
  from a b e1 e2 e3 e4 show ?thesis by blast
qed

theorem parseMediaQuery_spec_witness:
  "isCrossRoot (parseMediaQuery ''screen and --crossroot( .a ) and (x)'')
   \<and> selector (parseMediaQuery ''screen and --crossroot( .a ) and (x)'') = '' .a ''"
proof -
  let ?c = "''screen and --crossroot( .a ) and (x)''"
  have n: "\<not> sublist ''--crossroot'' (''screen and '' @ ''--crossroo'')"
    using search_marker_None [of "''screen and '' @ ''--crossroo''"]
    by (simp add: marker_def)
  have s: "?c = ''screen and '' @ ''--crossroot'' @ ''( .a ) and (x)''"
    by simp
  have w: "sublist ''--crossroot'' ?c"
    unfolding sublist_def using s by blast
  have m: "marker_argument ''( .a ) and (x)'' = '' .a ''"
    by (simp add: marker_argument_def)
  have t: "trim '' .a '' \<noteq> []"
    by (simp add: trim_def is_js_space_def)
  have "selector (parseMediaQuery ?c) =
      (if trim (marker_argument ''( .a ) and (x)'') = [] then ''*''
       else marker_argument ''( .a ) and (x)'')"
    using parseMediaQuery_spec [of ?c "''screen and ''" "''( .a ) and (x)''"] n s
    by blast
  moreover have "isCrossRoot (parseMediaQuery ?c)"
    using parseMediaQuery_spec [of ?c "''screen and ''" "''( .a ) and (x)''"] w
    by blast
  ultimately show ?thesis
    using m t by simp
qed

text \<open>
  Claim C3 as the specification states it fails: \<^verbatim>\<open>--crossroots\<close> is not the token,
  has no parenthesis at all, and is reported cross-root.
\<close>

theorem parseMediaQuery_counterexample:
  "isCrossRoot (parseMediaQuery ''--crossroots'')
   \<and> ''--crossroots'' \<noteq> ''--crossroot''
   \<and> CHR ''('' \<notin> set ''--crossroots''"
  by (simp add: parseMediaQuery_def regex_match_def marker_def Let_def)

subsection \<open>Facts about the Dark-Root Detector\<close>

lemma ancestry_wf: "finite (ancestry d) \<Longrightarrow> acyclic (ancestry d) \<Longrightarrow> wf (ancestry d)"
  by (rule finite_acyclic_wf)

lemma isInDarkRoot_returns:
  assumes "wf (ancestry d)"
  shows "\<exists>b. isInDarkRoot d n = Some b"
  using assms
proof (induction n rule: wf_induct_rule)
  case (less n)
  show ?case
  proof (cases "parentElement d n")
    case (Some p)
    then have "(p, n) \<in> ancestry d" by (simp add: ancestry_def walk_up_def)
    then obtain b where "isInDarkRoot d p = Some b" using less by blast
    then show ?thesis using Some by (subst isInDarkRoot.simps) simp
  next
    case None
    show ?thesis
    proof (cases "shadowHost d n")
      case (Some h)
      then have "(h, n) \<in> ancestry d" using None by (simp add: ancestry_def walk_up_def)
      then obtain b where "isInDarkRoot d h = Some b" using less by blast
      then show ?thesis using None Some by (subst isInDarkRoot.simps) auto
    next
      case None': None
      show ?thesis using None None' by (subst isInDarkRoot.simps) simp
    qed
  qed
qed

text \<open>
  Claim C7. On a finite acyclic ancestry the walk returns a value from every node, and
  the value is: that of the parent element when there is one; for a shadow root without
  a parent, true when the host carries the darkened attribute or property and the value
  of the host otherwise; for a node with no parent that is no shadow root, true exactly
  when the node is not the document's root element.
\<close>

theorem isInDarkRoot_spec:
  assumes "finite (ancestry d)" and "acyclic (ancestry d)"
  shows "(\<exists>b. isInDarkRoot d n = Some b)
    \<and> (\<forall>p. parentElement d n = Some p \<longrightarrow> isInDarkRoot d n = isInDarkRoot d p)
    \<and> (\<forall>h. parentElement d n = None \<and> shadowHost d n = Some h \<longrightarrow>
          isInDarkRoot d n =
            (if hasDarkenedAttr d h \<or> darkenedProp d h then Some True else isInDarkRoot d h))
    \<and> (parentElement d n = None \<and> shadowHost d n = None \<longrightarrow>
          isInDarkRoot d n = Some (n \<noteq> documentElement d))"
proof -
  have "wf (ancestry d)" using assms by (rule ancestry_wf)
  then have "\<exists>b. isInDarkRoot d n = Some b" by (rule isInDarkRoot_returns)
  moreover have "\<forall>p. parentElement d n = Some p \<longrightarrow> isInDarkRoot d n = isInDarkRoot d p"
    by (subst isInDarkRoot.simps) simp
  moreover have "\<forall>h. parentElement d n = None \<and> shadowHost d n = Some h \<longrightarrow>
      isInDarkRoot d n =
        (if hasDarkenedAttr d h \<or> darkenedProp d h then Some True else isInDarkRoot d h)"
    by (subst isInDarkRoot.simps) simp
  moreover have "parentElement d n = None \<and> shadowHost d n = None \<longrightarrow>
      isInDarkRoot d n = Some (n \<noteq> documentElement d)"
    by (subst isInDarkRoot.simps) simp
  ultimately show ?thesis by blast
qed

lemma ancestry_example_page: "ancestry example_page = {(1, 2), (0, 1), (2, 5), (3, 6)}"
  by (auto simp: ancestry_def walk_up_def example_page_def split: if_splits option.splits)

theorem isInDarkRoot_spec_witness:
  "finite (ancestry example_page) \<and> acyclic (ancestry example_page)
   \<and> isInDarkRoot example_page 5 = Some False
   \<and> isInDarkRoot example_page 6 = Some True
   \<and> isInDarkRoot example_page 3 = Some True"
proof -
  have f: "finite (ancestry example_page)"
    by (simp add: ancestry_example_page)
  have "ancestry example_page \<subseteq> {(m, n). m < n}"
    by (simp add: ancestry_example_page)
  then have "wf (ancestry example_page)"
    by (rule wf_subset [OF wf_less])
  then have a: "acyclic (ancestry example_page)"
    by (rule wf_acyclic)
  have p: "parentElement example_page 5 = None" "shadowHost example_page 5 = Some 2"
      "parentElement example_page 2 = Some 1" "parentElement example_page 1 = Some 0"
      "parentElement example_page 0 = None" "shadowHost example_page 0 = None"
      "\<not> hasDarkenedAttr example_page 2" "\<not> darkenedProp example_page 2"
      "documentElement example_page = 0"
      "parentElement example_page 6 = None" "shadowHost example_page 6 = Some 3"
      "hasDarkenedAttr example_page 3"
      "parentElement example_page 3 = None" "shadowHost example_page 3 = None"
    by (simp_all add: example_page_def)
  have "isInDarkRoot example_page 0 = Some False"
    using isInDarkRoot_spec [OF f a, of 0] p by simp
  then have "isInDarkRoot example_page 1 = Some False"
    using isInDarkRoot_spec [OF f a, of 1] p by simp
  then have "isInDarkRoot example_page 2 = Some False"
    using isInDarkRoot_spec [OF f a, of 2] p by simp
  then have 5: "isInDarkRoot example_page 5 = Some False"
    using isInDarkRoot_spec [OF f a, of 5] p by simp
  have 6: "isInDarkRoot example_page 6 = Some True"
    using isInDarkRoot_spec [OF f a, of 6] p by simp
  have 3: "isInDarkRoot example_page 3 = Some True"
    using isInDarkRoot_spec [OF f a, of 3] p by simp
  from f a 5 6 3 show ?thesis by blast
qed

subsection \<open>Facts about objects and the order of their keys\<close>

lemma keys_define_own: "map fst (define_own obj k v) = place (map fst obj) k"
  by (induction obj) auto

lemma set_define_own: "set (define_own obj k v) = insert (k, v) (set obj)"
  by (induction obj) (auto split: if_splits)

lemma set_place: "set (place ks k) = insert k (set ks)"
  by (induction ks) (auto split: if_splits)

lemma distinct_place: "distinct ks \<Longrightarrow> k \<notin> set ks \<Longrightarrow> distinct (place ks k)"
  by (induction ks) (auto simp: set_place)

lemma map_of_define_own:
  "k \<notin> fst ` set obj \<Longrightarrow> map_of (define_own obj k v) = (map_of obj)(k \<mapsto> v)"
  by (induction obj) (auto simp: fun_upd_twist)

lemma enum_ordered_tl: "enum_ordered (k # ks) \<Longrightarrow> enum_ordered ks"
  by (cases ks) simp_all

lemma enum_ordered_before:
  "enum_ordered (k # ks) \<Longrightarrow> x \<in> set ks \<Longrightarrow> is_array_index x \<Longrightarrow>
     is_array_index k \<and> index_value k \<le> index_value x"
proof (induction ks arbitrary: k)
  case Nil
  then show ?case by simp
next
  case (Cons k' ks)
  show ?case
  proof (cases "x = k'")
    case True
    then show ?thesis using Cons.prems by simp
  next
    case False
    then have "x \<in> set ks" using Cons.prems(2) by simp
    moreover have "enum_ordered (k' # ks)" using Cons.prems(1) by simp
    ultimately have k': "is_array_index k' \<and> index_value k' \<le> index_value x"
      using Cons.IH Cons.prems(3) by blast
    then show ?thesis using Cons.prems(1) by auto
  qed
qed

lemma enum_ordered_butlast: "enum_ordered (ks @ [k]) \<Longrightarrow> enum_ordered ks"
proof (induction ks rule: enum_ordered.induct)
  case 1
  then show ?case by simp
next
  case (2 k')
  then show ?case by simp
next
  case (3 a b ks)
  then show ?case by simp
qed

lemma place_ordered: "enum_ordered ks \<Longrightarrow> enum_ordered (place ks k)"
proof (induction ks rule: enum_ordered.induct)
  case 1
  then show ?case by simp
next
  case (2 k')
  then show ?case by auto
next
  case (3 a b ks)
  then show ?case by auto
qed

lemma place_append: "enum_ordered (ks @ [k]) \<Longrightarrow> place ks k = ks @ [k]"
proof (induction ks)
  case Nil
  then show ?case by simp
next
  case (Cons k' ks)
  have tl: "enum_ordered (ks @ [k])"
    using Cons.prems enum_ordered_tl [of k' "ks @ [k]"] by simp
  have "is_array_index k \<Longrightarrow> is_array_index k' \<and> index_value k' \<le> index_value k"
    using enum_ordered_before [of k' "ks @ [k]" k] Cons.prems by simp
  then show ?case using Cons.IH [OF tl] by auto
qed

lemma define_own_append:
  "enum_ordered (map fst obj @ [k]) \<Longrightarrow> define_own obj k v = obj @ [(k, v)]"
proof (induction obj)
  case Nil
  then show ?case by simp
next
  case (Cons x obj)
  obtain k' v' where x: "x = (k', v')" by (cases x)
  have tl: "enum_ordered (map fst obj @ [k])"
    using Cons.prems enum_ordered_tl [of "fst x" "map fst obj @ [k]"] by simp
  have "is_array_index k \<Longrightarrow> is_array_index k' \<and> index_value k' \<le> index_value k"
    using enum_ordered_before [of k' "map fst obj @ [k]" k] Cons.prems x by simp
  then show ?case using Cons.IH [OF tl] x by auto
qed

lemma enum_keys_snoc: "enum_keys (ks @ [k]) = place (enum_keys ks) k"
  by (simp add: enum_keys_def)

lemma set_enum_keys [simp]: "set (enum_keys ks) = set ks"
  by (induction ks rule: rev_induct) (simp_all add: enum_keys_snoc set_place, simp add: enum_keys_def)

lemma distinct_enum_keys: "distinct ks \<Longrightarrow> distinct (enum_keys ks)"
proof (induction ks rule: rev_induct)
  case Nil
  then show ?case by (simp add: enum_keys_def)
next
  case (snoc k ks)
  then show ?case by (simp add: enum_keys_snoc distinct_place)
qed

lemma length_enum_keys [simp]: "length (enum_keys ks) = length ks"
proof (induction ks rule: rev_induct)
  case Nil
  then show ?case by (simp add: enum_keys_def)
next
  case (snoc k ks)
  have "length (place xs k) = Suc (length xs)" for xs
    by (induction xs) auto
  then show ?case using snoc by (simp add: enum_keys_snoc)
qed

lemma enum_ordered_enum_keys: "enum_ordered (enum_keys ks)"
proof (induction ks rule: rev_induct)
  case Nil
  then show ?case by (simp add: enum_keys_def)
next
  case (snoc k ks)
  then show ?case by (simp add: enum_keys_snoc place_ordered)
qed

lemma enum_keys_ordered: "enum_ordered ks \<Longrightarrow> enum_keys ks = ks"
proof (induction ks rule: rev_induct)
  case Nil
  then show ?case by (simp add: enum_keys_def)
next
  case (snoc k ks)
  have "enum_keys ks = ks"
    using snoc.IH enum_ordered_butlast [OF snoc.prems] by simp
  then show ?case
    using place_append [OF snoc.prems] by (simp add: enum_keys_snoc)
qed

lemma object_of_snoc: "object_of (xs @ [(k, v)]) = define_own (object_of xs) k v"
  by (simp add: object_of_def)

lemma object_of_Nil [simp]: "object_of [] = []"
  by (simp add: object_of_def)

lemma keys_object_of: "map fst (object_of xs) = enum_keys (map fst xs)"
proof (induction xs rule: rev_induct)
  case Nil
  then show ?case by (simp add: enum_keys_def)
next
  case (snoc x xs)
  then show ?case
    by (cases x) (simp add: object_of_snoc keys_define_own enum_keys_snoc)
qed

lemma set_object_of: "set (object_of xs) = set xs"
proof (induction xs rule: rev_induct)
  case Nil
  then show ?case by simp
next
  case (snoc x xs)
  then show ?case
    by (cases x) (simp add: object_of_snoc set_define_own)
qed

lemma distinct_object_of: "distinct (map fst xs) \<Longrightarrow> distinct (map fst (object_of xs))"
  by (simp add: keys_object_of distinct_enum_keys)

lemma map_of_object_of: "distinct (map fst xs) \<Longrightarrow> map_of (object_of xs) = map_of xs"
proof (induction xs rule: rev_induct)
  case Nil
  then show ?case by simp
next
  case (snoc x xs)
  obtain k v where x: "x = (k, v)" by (cases x)
  have fresh: "k \<notin> fst ` set xs" and d: "distinct (map fst xs)"
    using snoc.prems x by auto
  have "k \<notin> fst ` set (object_of xs)"
    using fresh by (simp add: set_object_of)
  then have "map_of (object_of (xs @ [x])) = (map_of (object_of xs))(k \<mapsto> v)"
    unfolding x object_of_snoc by (rule map_of_define_own)
  also have "\<dots> = (map_of xs)(k \<mapsto> v)"
    using snoc.IH [OF d] by simp
  also have "\<dots> = map_of (xs @ [x])"
  proof
    fix k'
    have none: "map_of xs k = None"
      using fresh by (simp add: map_of_eq_None_iff)
    show "((map_of xs)(k \<mapsto> v)) k' = map_of (xs @ [x]) k'"
      using none x by (cases "k' = k") (auto simp: map_add_def split: option.splits)
  qed
  finally show ?case .
qed

lemma object_of_ordered: "enum_ordered (map fst xs) \<Longrightarrow> object_of xs = xs"
proof (induction xs rule: rev_induct)
  case Nil
  then show ?case by simp
next
  case (snoc x xs)
  obtain k v where x: "x = (k, v)" by (cases x)
  have ord: "enum_ordered (map fst xs @ [k])"
    using snoc.prems x by simp
  then have "object_of xs = xs"
    using snoc.IH enum_ordered_butlast by blast
  then show ?case
    using define_own_append [OF ord, of v] by (simp add: x object_of_snoc)
qed

subsection \<open>Facts about the Rule Extractor\<close>

lemma R_clone_id: "R_clone obj = obj"
  by (induction obj) (auto simp: R_clone_def)

lemma fold_insert_Inl: "foldl (insert_pair check) (Inl e) js = Inl e"
  by (induction js) simp_all

lemma fold_scan_rule_Inl: "foldl (scan_rule check) (Inl e) rules = Inl e"
  by (induction rules) simp_all

lemma fold_scan_sheet_Inl: "foldl (scan_sheet check) (Inl e) sheets = Inl e"
  by (induction sheets) simp_all

lemma add_rule_to_insert: "add_rule_to check sel r rule = insert_pair check r (sel, rule)"
proof (cases r)
  case (Inl e)
  then show ?thesis by simp
next
  case (Inr hs)
  then show ?thesis by (cases hs) simp
qed

lemma processStyleSheet_insertions:
  "processStyleSheet check h rules sel styles
     = foldl (insert_pair check) (Inr (h, styles)) (map (Pair sel) rules)"
proof -
  have "foldl (add_rule_to check sel) r rules = foldl (insert_pair check) r (map (Pair sel) rules)"
    for r
    by (induction rules arbitrary: r) (simp_all add: add_rule_to_insert)
  then show ?thesis by (simp add: processStyleSheet_def)
qed

lemma scan_rule_insertions:
  "scan_rule check r rule = foldl (insert_pair check) r (rule_insertions rule)"
proof (cases r)
  case (Inl e)
  then show ?thesis by (simp add: fold_insert_Inl)
next
  case (Inr hs)
  then show ?thesis
    by (cases hs) (simp add: rule_insertions_def Let_def processStyleSheet_insertions)
qed

lemma scan_rules_insertions:
  "foldl (scan_rule check) r rules
     = foldl (insert_pair check) r (concat (map rule_insertions rules))"
  by (induction rules arbitrary: r) (simp_all add: scan_rule_insertions)

lemma sheet_fault_None:
  "sheet_fault sheet = None \<longleftrightarrow>
     (\<exists>owner. ownerNode sheet = Some owner \<and> (owner_matches owner \<longrightarrow> \<not> crossOrigin sheet))"
  by (auto simp: sheet_fault_def split: option.splits)

lemma scan_sheet_insertions:
  assumes "sheet_fault sheet = None"
  shows "scan_sheet check r sheet = foldl (insert_pair check) r (sheet_insertions sheet)"
proof (cases r)
  case (Inl e)
  then show ?thesis by (simp add: fold_insert_Inl)
next
  case (Inr hs)
  obtain owner where o: "ownerNode sheet = Some owner" "owner_matches owner \<longrightarrow> \<not> crossOrigin sheet"
    using assms unfolding sheet_fault_None by blast
  show ?thesis
    using Inr o
    by (cases hs)
      (simp add: sheet_insertions_def scanned_def Let_def processStyleSheet_insertions
        scan_rules_insertions)
qed

lemma scan_sheet_fault:
  "sheet_fault sheet = Some e \<Longrightarrow> scan_sheet check (Inr hs) sheet = Inl e"
  by (cases hs) (auto simp: sheet_fault_def split: option.splits if_splits)

lemma scan_sheets_insertions:
  "\<forall>sheet \<in> set sheets. sheet_fault sheet = None \<Longrightarrow>
     foldl (scan_sheet check) r sheets = foldl (insert_pair check) r (insertions sheets)"
  by (induction sheets arbitrary: r) (simp_all add: insertions_def scan_sheet_insertions)

lemma scan_sheets_faults:
  "foldl (scan_sheet check) r sheets = Inr X \<Longrightarrow> \<forall>sheet \<in> set sheets. sheet_fault sheet = None"
proof (induction sheets arbitrary: r)
  case Nil
  then show ?case by simp
next
  case (Cons sheet sheets)
  have rest: "\<forall>sheet \<in> set sheets. sheet_fault sheet = None"
    using Cons by simp
  have "sheet_fault sheet = None"
  proof (rule ccontr)
    assume "sheet_fault sheet \<noteq> None"
    then obtain e where e: "sheet_fault sheet = Some e" by blast
    have "\<exists>e'. scan_sheet check r sheet = Inl e'"
    proof (cases r)
      case (Inl e')
      then show ?thesis by simp
    next
      case (Inr hs)
      then show ?thesis using scan_sheet_fault [OF e] by simp
    qed
    then show False
      using Cons.prems by (auto simp: fold_scan_sheet_Inl)
  qed
  then show ?case using rest by simp
qed

lemma refresh_insertions:
  "\<forall>sheet \<in> set sheets. sheet_fault sheet = None \<Longrightarrow>
     refreshCrossRootStyles check h sheets
       = foldl (insert_pair check) (Inr (h, [])) (insertions sheets)"
  by (simp add: refreshCrossRootStyles_def createCrossRootStyles_def scan_sheets_insertions)

lemma refresh_returns:
  assumes "refreshCrossRootStyles check h sheets = Inr X"
  shows "\<forall>sheet \<in> set sheets. sheet_fault sheet = None"
    and "foldl (insert_pair check) (Inr (h, [])) (insertions sheets) = Inr X"
proof -
  show f: "\<forall>sheet \<in> set sheets. sheet_fault sheet = None"
    using assms unfolding refreshCrossRootStyles_def by (rule scan_sheets_faults)
  show "foldl (insert_pair check) (Inr (h, [])) (insertions sheets) = Inr X"
    using assms refresh_insertions [OF f] by simp
qed

lemma first_occurrences_snoc:
  "first_occurrences (ks @ [k]) =
     (if k \<in> set ks then first_occurrences ks else first_occurrences ks @ [k])"
  by (simp add: first_occurrences_def)

lemma set_first_occurrences [simp]: "set (first_occurrences ks) = set ks"
  by (simp add: first_occurrences_def)

lemma distinct_first_occurrences [simp]: "distinct (first_occurrences ks)"
  by (simp add: first_occurrences_def)

lemma set_selectors_of [simp]: "set (selectors_of js) = fst ` set js"
  by (simp add: selectors_of_def)

lemma distinct_selectors_of [simp]: "distinct (selectors_of js)"
  by (simp add: selectors_of_def)

lemma selectors_of_snoc:
  "selectors_of (js @ [(k, r)]) =
     (if k \<in> set (selectors_of js) then selectors_of js else selectors_of js @ [k])"
  by (simp add: selectors_of_def first_occurrences_snoc)

lemma texts_of_snoc:
  "texts_of (js @ [(sel, r)]) k = (if k = sel then cssText r # texts_of js k else texts_of js k)"
  by (simp add: texts_of_def)

lemma texts_of_empty: "k \<notin> fst ` set js \<Longrightarrow> texts_of js k = []"
  by (induction js) (auto simp: texts_of_def)

lemma texts_of_nonempty: "k \<in> fst ` set js \<Longrightarrow> texts_of js k \<noteq> []"
  by (induction js) (auto simp: texts_of_def)

lemma keys_zip_upt [simp]: "map fst (zip ks [n ..< n + length ks]) = ks"
  by (simp add: map_fst_zip)

lemma map_of_extracted:
  "map_of (snd (extracted h js))
     = map_of (zip (selectors_of js) [length h ..< length h + length (selectors_of js)])"
  unfolding extracted_def snd_conv by (rule map_of_object_of) simp

lemma map_of_zip_upt:
  assumes "distinct ks" and "i < length ks"
  shows "map_of (zip ks [n ..< n + length ks]) (ks ! i) = Some (n + i)"
  using map_of_zip_nth [of ks "[n ..< n + length ks]" i] assms by simp

lemma map_of_zip_upt_None:
  "k \<notin> set ks \<Longrightarrow> map_of (zip ks [n ..< n + length ks]) k = None"
  by (simp add: map_of_zip_is_None)

lemma map_update_at:
  assumes "distinct ks" and "i < length ks"
  shows "(map f ks)[i := v] = map (\<lambda>k. if k = ks ! i then v else f k) ks"
proof (rule nth_equalityI)
  show "length ((map f ks)[i := v]) = length (map (\<lambda>k. if k = ks ! i then v else f k) ks)"
    by simp
next
  fix j assume "j < length ((map f ks)[i := v])"
  then have j: "j < length ks" by simp
  show "(map f ks)[i := v] ! j = map (\<lambda>k. if k = ks ! i then v else f k) ks ! j"
  proof (cases "j = i")
    case True
    then show ?thesis using j by simp
  next
    case False
    then have "ks ! j \<noteq> ks ! i"
      using assms j by (simp add: nth_eq_iff_index_eq)
    then show ?thesis using j False by simp
  qed
qed

lemma insertRule_takes:
  "a < length h \<Longrightarrow> takes check (h ! a) t \<Longrightarrow> insertRule check h a t = Inr (h[a := t # h ! a])"
  by (simp add: insertRule_def takes_def)

lemma addStyleRule_known:
  "map_of styles sel = Some sheet \<Longrightarrow> sheet < length h \<Longrightarrow> takes check (h ! sheet) (cssText r) \<Longrightarrow>
     addStyleRule check h styles sel r = Inr (h[sheet := cssText r # h ! sheet], styles)"
  by (simp add: addStyleRule_def R_clone_id insertRule_takes)

lemma addStyleRule_new:
  "map_of styles sel = None \<Longrightarrow> sel \<notin> set object_prototype_names \<Longrightarrow> takes check [] (cssText r) \<Longrightarrow>
     addStyleRule check h styles sel r = Inr (h @ [[cssText r]], define_own styles sel (length h))"
  by (auto simp: addStyleRule_def R_clone_id new_CSSStyleSheet_def insertRule_def takes_def
      split: if_splits)

lemma addStyleRule_ok:
  assumes "addStyleRule check h styles sel r = Inr X"
  shows "case map_of styles sel of
           Some sheet \<Rightarrow> sheet < length h \<longrightarrow> takes check (h ! sheet) (cssText r)
         | None \<Rightarrow> sel \<notin> set object_prototype_names \<and> takes check [] (cssText r)"
  using assms
  by (auto simp: addStyleRule_def R_clone_id new_CSSStyleSheet_def insertRule_def takes_def
      split: option.splits if_splits sum.splits)

lemma extracted_at:
  assumes "i < length (selectors_of js)"
  shows "map_of (snd (extracted h js)) (selectors_of js ! i) = Some (length h + i)"
    and "length h + i < length (fst (extracted h js))"
    and "fst (extracted h js) ! (length h + i) = texts_of js (selectors_of js ! i)"
  using assms map_of_zip_upt [of "selectors_of js" i "length h"]
  by (simp_all add: map_of_extracted) (simp_all add: extracted_def nth_append)

lemma insert_pair_extracted:
  assumes "insertion_ok check js (sel, r)"
  shows "insert_pair check (Inr (extracted h js)) (sel, r) = Inr (extracted h (js @ [(sel, r)]))"
proof (cases "sel \<in> set (selectors_of js)")
  case True
  let ?ks = "selectors_of js"
  let ?m = "object_of (zip ?ks [length h ..< length h + length ?ks])"
  let ?H = "h @ map (texts_of js) ?ks"
  obtain i where i: "i < length ?ks" "?ks ! i = sel"
    using True by (metis in_set_conv_nth)
  have look: "map_of ?m sel = Some (length h + i)"
    using extracted_at(1) [OF i(1), of h] i(2) by (simp add: extracted_def)
  have len: "length h + i < length ?H" using i by simp
  have at: "?H ! (length h + i) = texts_of js sel"
    using i by (simp add: nth_append)
  have tk: "takes check (?H ! (length h + i)) (cssText r)"
    unfolding at using assms by (simp add: insertion_ok_def)
  have "?H[length h + i := cssText r # ?H ! (length h + i)]
      = h @ (map (texts_of js) ?ks)[i := cssText r # texts_of js sel]"
    unfolding at using i by (simp add: list_update_append)
  also have "(map (texts_of js) ?ks)[i := cssText r # texts_of js sel]
      = map (texts_of (js @ [(sel, r)])) ?ks"
    using map_update_at [of ?ks i "texts_of js" "cssText r # texts_of js sel"] i
    by (simp add: texts_of_snoc cong: map_cong)
  finally have heap: "?H[length h + i := cssText r # ?H ! (length h + i)]
      = h @ map (texts_of (js @ [(sel, r)])) ?ks" .
  have ks: "selectors_of (js @ [(sel, r)]) = ?ks"
    using True by (simp only: selectors_of_snoc if_True)
  have "insert_pair check (Inr (extracted h js)) (sel, r)
      = Inr (?H[length h + i := cssText r # ?H ! (length h + i)], ?m)"
    unfolding extracted_def insert_pair.simps by (rule addStyleRule_known [OF look len tk])
  also have "\<dots> = Inr (extracted h (js @ [(sel, r)]))"
    unfolding extracted_def ks heap ..
  finally show ?thesis .
next
  case False
  let ?ks = "selectors_of js"
  let ?z = "zip ?ks [length h ..< length h + length ?ks]"
  let ?m = "object_of ?z"
  let ?H = "h @ map (texts_of js) ?ks"
  have "map_of ?z sel = None"
    using False by (rule map_of_zip_upt_None)
  then have look: "map_of ?m sel = None"
    using map_of_extracted [of h js] by (simp add: extracted_def)
  have notin: "sel \<notin> fst ` set js" using False by simp
  then have t: "texts_of js sel = []"
    by (rule texts_of_empty)
  have proto: "sel \<notin> set object_prototype_names"
    using assms notin by (simp add: insertion_ok_def)
  have tk: "takes check [] (cssText r)"
    using assms t by (simp add: insertion_ok_def)
  have same: "map (texts_of (js @ [(sel, r)])) ?ks = map (texts_of js) ?ks"
  proof (rule map_cong [OF refl])
    fix k assume "k \<in> set ?ks"
    then have "k \<noteq> sel" using False by blast
    then show "texts_of (js @ [(sel, r)]) k = texts_of js k"
      by (simp add: texts_of_snoc)
  qed
  have ks: "selectors_of (js @ [(sel, r)]) = ?ks @ [sel]"
    using False by (simp only: selectors_of_snoc if_False)
  have heap: "?H @ [[cssText r]] = h @ map (texts_of (js @ [(sel, r)])) (?ks @ [sel])"
    by (simp add: same texts_of_snoc t)
  have "?z @ [(sel, length ?H)]
      = zip (?ks @ [sel]) [length h ..< length h + length (?ks @ [sel])]"
    by simp
  then have obj: "define_own ?m sel (length ?H)
      = object_of (zip (?ks @ [sel]) [length h ..< length h + length (?ks @ [sel])])"
    using object_of_snoc [of ?z sel "length ?H"] by simp
  have "insert_pair check (Inr (extracted h js)) (sel, r)
      = Inr (?H @ [[cssText r]], define_own ?m sel (length ?H))"
    unfolding extracted_def insert_pair.simps by (rule addStyleRule_new [OF look proto tk])
  also have "\<dots> = Inr (extracted h (js @ [(sel, r)]))"
    unfolding extracted_def ks heap obj ..
  finally show ?thesis .
qed

lemma insert_pair_returns:
  assumes "insert_pair check (Inr (extracted h js)) (sel, r) = Inr X"
  shows "insertion_ok check js (sel, r)"
proof -
  let ?ks = "selectors_of js"
  have add: "addStyleRule check (fst (extracted h js)) (snd (extracted h js)) sel r = Inr X"
    using assms by (cases "extracted h js") simp
  note ok = addStyleRule_ok [OF add]
  show ?thesis
  proof (cases "sel \<in> set ?ks")
    case True
    then obtain i where i: "i < length ?ks" "?ks ! i = sel"
      by (metis in_set_conv_nth)
    have "takes check (texts_of js sel) (cssText r)"
      using ok extracted_at [OF i(1), of h] i(2) by simp
    moreover have "sel \<in> fst ` set js" using True by simp
    ultimately show ?thesis by (simp add: insertion_ok_def)
  next
    case False
    then have look: "map_of (snd (extracted h js)) sel = None"
      by (simp add: map_of_extracted map_of_zip_upt_None)
    have "sel \<notin> fst ` set js" using False by simp
    then have "texts_of js sel = []" by (rule texts_of_empty)
    then show ?thesis
      using ok look by (simp add: insertion_ok_def)
  qed
qed

lemma insertions_ok_snoc:
  "insertions_ok check (js @ [j]) \<longleftrightarrow> insertions_ok check js \<and> insertion_ok check js j"
  by (auto simp: insertions_ok_def less_Suc_eq nth_append)

lemma insertions_extracted:
  "insertions_ok check js \<Longrightarrow> foldl (insert_pair check) (Inr (h, [])) js = Inr (extracted h js)"
proof (induction js rule: rev_induct)
  case Nil
  then show ?case by (simp add: extracted_def selectors_of_def first_occurrences_def)
next
  case (snoc j js)
  then show ?case
    by (cases j) (simp add: insertions_ok_snoc insert_pair_extracted)
qed

lemma insertions_return:
  "foldl (insert_pair check) (Inr (h, [])) js = Inr X \<Longrightarrow>
     insertions_ok check js \<and> X = extracted h js"
proof (induction js arbitrary: X rule: rev_induct)
  case Nil
  then show ?case
    by (auto simp: extracted_def selectors_of_def first_occurrences_def insertions_ok_def)
next
  case (snoc j js)
  obtain sel r where j: "j = (sel, r)" by (cases j)
  have step: "insert_pair check (foldl (insert_pair check) (Inr (h, [])) js) (sel, r) = Inr X"
    using snoc.prems j by simp
  obtain Y where Y: "foldl (insert_pair check) (Inr (h, [])) js = Inr Y"
    using step by (cases "foldl (insert_pair check) (Inr (h, [])) js") auto
  then have IH: "insertions_ok check js" "Y = extracted h js"
    using snoc.IH by simp_all
  have ok: "insertion_ok check js (sel, r)"
    using step unfolding Y IH(2) by (rule insert_pair_returns)
  have "X = extracted h (js @ [(sel, r)])"
    using step insert_pair_extracted [OF ok, of h] unfolding Y IH(2) by simp
  then show ?case using IH(1) ok j by (simp add: insertions_ok_snoc)
qed

text \<open>
  A scan returns exactly when no sheet makes it throw and all its insertions go through,
  and then with the heap and the object that these insertions give.
\<close>

lemma refresh_extracted:
  "refreshCrossRootStyles check h sheets = Inr X \<longleftrightarrow>
     (\<forall>sheet \<in> set sheets. sheet_fault sheet = None)
     \<and> insertions_ok check (insertions sheets) \<and> X = extracted h (insertions sheets)"
  using refresh_returns [of check h sheets X] insertions_return [of check h "insertions sheets" X]
    refresh_insertions [of sheets check h] insertions_extracted [of check "insertions sheets" h]
  by auto



lemma extracted_lookup:
  assumes "map_of (snd (extracted h js)) k = Some a"
  shows "cssRulesOf (fst (extracted h js)) a = texts_of js k"
    and "k \<in> fst ` set js"
    and "length h \<le> a" and "a < length h + length (selectors_of js)"
proof -
  let ?ks = "selectors_of js"
  have "(k, a) \<in> set (zip ?ks [length h ..< length h + length ?ks])"
    using assms unfolding map_of_extracted by (rule map_of_SomeD)
  then obtain i where i: "i < length ?ks" "?ks ! i = k" "a = length h + i"
    by (auto simp: set_zip)
  show "cssRulesOf (fst (extracted h js)) a = texts_of js k"
    using i by (simp add: extracted_def cssRulesOf_def nth_append)
  have "k \<in> set ?ks" using i by (metis nth_mem)
  then show "k \<in> fst ` set js" by simp
  show "length h \<le> a" "a < length h + length ?ks" using i by simp_all
qed


lemma R_keys_extracted: "R_keys (snd (extracted h js)) = enum_keys (selectors_of js)"
  by (simp add: extracted_def R_keys_def keys_object_of)

subsection \<open>Claim C5: which rule groups are extracted\<close>



lemma plain_conditions_parse:
  "\<not> isCrossRoot (parseMediaQuery [])"
  "\<not> isCrossRoot (parseMediaQuery ''screen'')"
  "\<not> isCrossRoot (parseMediaQuery ''(display: grid)'')"
  by (simp_all add: parseMediaQuery_def regex_match_def marker_def Let_def)




text \<open>
  The scan throws: on a top-level group marked \<^verbatim>\<open>--crossroot(toString)\<close>, on a sheet whose
  owner node is \<^verbatim>\<open>null\<close>, on a sheet of another origin under the head, and on an \<^verbatim>\<open>@import\<close>
  rule of a sheet with media \<^verbatim>\<open>--crossroot\<close>.
\<close>

lemma refreshCrossRootStyles_throws:
  "refreshCrossRootStyles example_check [] [head_sheet [] [widget_group, prototype_group]]
     = Inl TypeError"
  "refreshCrossRootStyles example_check [] [(head_sheet [] [widget_group])\<lparr>ownerNode := None\<rparr>]
     = Inl TypeError"
  "refreshCrossRootStyles example_check [] [(head_sheet [] [])\<lparr>crossOrigin := True\<rparr>]
     = Inl SecurityError"
  "refreshCrossRootStyles example_check [] [head_sheet ''--crossroot'' [import_rule, red_rule]]
     = Inl SyntaxError"
  by code_simp+

text \<open>
  The keys of the object a scan returns are enumerated as JavaScript does: the array
  index \<^verbatim>\<open>7\<close> before \<^verbatim>\<open>.widget\<close>, though its accumulator was created later.
\<close>

lemma refreshCrossRootStyles_key_order:
  "refreshCrossRootStyles example_check [] [head_sheet [] [widget_group, numeric_group]]
     = Inr ([[''p { color: red; }''], [''p { color: blue; }'']], [(''7'', 1), (''.widget'', 0)])"
  by code_simp

subsection \<open>Claim C6: \<^verbatim>\<open>addStyleRule\<close> and its input map\<close>

text \<open>
  Claim C6 at a failing input. The input map holds one accumulator for \<^verbatim>\<open>*\<close>, the sheet at
  address 0 with one rule. Adding a second rule for \<^verbatim>\<open>*\<close> returns a map whose entry is
  that same sheet, and the sheet, which the input map still refers to, now has two rules.
\<close>

theorem addStyleRule_changes_input:
  "addStyleRule example_check [[''p { color: red; }'']] [(''*'', 0)] ''*'' blue_rule
     = Inr ([[''p { color: blue; }'', ''p { color: red; }'']], [(''*'', 0)])
   \<and> map_of [(''*'', 0)] ''*'' = Some 0
   \<and> cssRulesOf [[''p { color: red; }'']] 0 = [''p { color: red; }'']
   \<and> map_sum id (\<lambda>(h', updatedStyles). cssRulesOf h' 0)
         (addStyleRule example_check [[''p { color: red; }'']] [(''*'', 0)] ''*'' blue_rule)
       = Inr [''p { color: blue; }'', ''p { color: red; }'']"
  by (simp add: addStyleRule_def R_clone_def insertRule_def cssRulesOf_def blue_rule_def
      example_check_def is_layer_block_def layer_open_def)

subsection \<open>Facts about the Stylesheet Compiler\<close>

lemma cssRulesOf_append: "cssRulesOf h a \<noteq> [] \<Longrightarrow> cssRulesOf (h @ h1) a = cssRulesOf h a"
  by (auto simp: cssRulesOf_def nth_append split: if_splits)

lemma R_assoc_new:
  "k \<notin> fst ` set obj \<Longrightarrow> enum_ordered (map fst obj @ [k]) \<Longrightarrow> R_assoc k v obj = obj @ [(k, v)]"
  by (simp add: R_assoc_def R_keys_def define_own_append)

lemma is_layer_block_wrap: "is_layer_block (''@layer --crossroot {'' @ t @ ''}'')"
proof -
  have "''@layer --crossroot {'' @ t @ ''}'' = layer_open @ t @ ''}''"
    by (simp add: layer_open_def)
  then show ?thesis
    unfolding is_layer_block_def by (simp add: suffix_def)
qed

lemma insertRule_layer_block:
  "insertRule check (H @ [[]]) (length H) (''@layer --crossroot {'' @ t @ ''}'')
     = Inr (H @ [[''@layer --crossroot {'' @ t @ ''}'']])"
  using is_layer_block_wrap [of t] by (simp add: insertRule_def)

lemma compile_selector_step:
  assumes "map_of styles k = Some acc" and "cssRulesOf H acc = t # ts"
    and "k \<notin> fst ` set compiled" and "enum_ordered (map fst compiled @ [k])"
  shows "compile_selector check styles (Inr (H, compiled)) k
     = Inr (H @ [compiled_rules (t # ts)], compiled @ [(k, length H)])"
proof -
  have "cssRulesOf (H @ [[]]) acc = t # ts"
    using cssRulesOf_append [of H acc "[[]]"] assms(2) by simp
  then show ?thesis
    using assms(1,3,4) insertRule_layer_block [of check H t]
    by (simp add: new_CSSStyleSheet_def R_assoc_new compiled_rules_def)
qed

lemma compile_prefix:
  assumes "distinct (map fst styles)"
    and "\<forall>(k, acc) \<in> set styles. cssRulesOf h acc \<noteq> []"
  shows "set xs \<subseteq> set styles \<Longrightarrow> distinct (map fst xs) \<Longrightarrow> enum_ordered (map fst xs) \<Longrightarrow>
     foldl (compile_selector check styles) (Inr (h, [])) (map fst xs)
       = Inr (h @ map (\<lambda>(k, acc). compiled_rules (cssRulesOf h acc)) xs,
              zip (map fst xs) [length h ..< length h + length xs])"
proof (induction xs rule: rev_induct)
  case Nil
  then show ?case by simp
next
  case (snoc x xs)
  obtain k acc where x: "x = (k, acc)" by (cases x)
  let ?F = "\<lambda>(k, acc). compiled_rules (cssRulesOf h acc)"
  let ?h1 = "map ?F xs"
  let ?c = "zip (map fst xs) [length h ..< length h + length xs]"
  have mem: "(k, acc) \<in> set styles" using snoc.prems x by simp
  then have look: "map_of styles k = Some acc"
    using assms(1) by simp
  have ne: "cssRulesOf h acc \<noteq> []" using assms(2) mem by blast
  have "fst ` set ?c = set (map fst xs)"
    by (metis (no_types) diff_add_inverse length_map length_upt list.set_map map_fst_zip)
  then have fresh: "k \<notin> fst ` set ?c"
    using snoc.prems(2) x by auto
  have ord: "enum_ordered (map fst xs @ [k])"
    using snoc.prems(3) x by simp
  have IH: "foldl (compile_selector check styles) (Inr (h, [])) (map fst xs) = Inr (h @ ?h1, ?c)"
    using snoc enum_ordered_butlast [OF ord] by simp
  have ord': "enum_ordered (map fst ?c @ [k])"
    using ord by simp
  have "foldl (compile_selector check styles) (Inr (h, [])) (map fst (xs @ [x]))
      = compile_selector check styles (Inr (h @ ?h1, ?c)) k"
    using IH x by simp
  also have "\<dots> = Inr ((h @ ?h1) @ [compiled_rules (cssRulesOf h acc)], ?c @ [(k, length (h @ ?h1))])"
  proof -
    obtain t ts where ts: "cssRulesOf h acc = t # ts"
      using ne by (cases "cssRulesOf h acc") auto
    then have "cssRulesOf (h @ ?h1) acc = t # ts"
      using cssRulesOf_append [of h acc ?h1] by simp
    from compile_selector_step [OF look this fresh ord'] ts show ?thesis by simp
  qed
  also have "\<dots> = Inr (h @ map ?F (xs @ [x]),
      zip (map fst (xs @ [x])) [length h ..< length h + length (xs @ [x])])"
    using x by simp
  finally show ?case .
qed

lemma compile_closed:
  assumes "distinct (map fst styles)"
    and "\<forall>(k, acc) \<in> set styles. cssRulesOf h acc \<noteq> []"
    and "enum_ordered (map fst styles)"
  shows "convertToCSSStyleSheets check h styles
     = Inr (h @ map (\<lambda>(k, acc). compiled_rules (cssRulesOf h acc)) styles,
            zip (map fst styles) [length h ..< length h + length styles])"
  using compile_prefix [OF assms(1,2), of styles] assms(1,3)
  by (simp add: convertToCSSStyleSheets_def createCrossRootStyles_def R_keys_def)

lemma compile_lookup:
  assumes "distinct (map fst styles)" and "map_of styles k = Some acc"
  shows "\<exists>sheet. map_of (zip (map fst styles) [length h ..< length h + length styles]) k = Some sheet
      \<and> cssRulesOf (h @ map F styles) sheet = F (k, acc)"
proof -
  have "(k, acc) \<in> set styles" using assms(2) by (rule map_of_SomeD)
  then obtain i where i: "i < length styles" "styles ! i = (k, acc)"
    by (metis in_set_conv_nth)
  then have "map fst styles ! i = k" by simp
  then have "map_of (zip (map fst styles) [length h ..< length h + length styles]) k
      = Some (length h + i)"
    using map_of_zip_upt [of "map fst styles" i "length h"] assms(1) i(1) by simp
  moreover have "cssRulesOf (h @ map F styles) (length h + i) = F (k, acc)"
    using i by (simp add: cssRulesOf_def)
  ultimately show ?thesis by blast
qed

lemma extracted_valid:
  "distinct (map fst (snd (extracted h js)))"
  "\<forall>(k, acc) \<in> set (snd (extracted h js)). cssRulesOf (fst (extracted h js)) acc \<noteq> []"
  "enum_ordered (map fst (snd (extracted h js)))"
proof -
  show d: "distinct (map fst (snd (extracted h js)))"
    by (simp add: extracted_def keys_object_of distinct_enum_keys)
  show "enum_ordered (map fst (snd (extracted h js)))"
    by (simp add: extracted_def keys_object_of enum_ordered_enum_keys)
  show "\<forall>(k, acc) \<in> set (snd (extracted h js)). cssRulesOf (fst (extracted h js)) acc \<noteq> []"
  proof (clarify)
    fix k acc
    assume m: "(k, acc) \<in> set (snd (extracted h js))" and e: "cssRulesOf (fst (extracted h js)) acc = []"
    have look: "map_of (snd (extracted h js)) k = Some acc"
      using m d by simp
    have "texts_of js k \<noteq> []"
      using extracted_lookup(2) [OF look] by (rule texts_of_nonempty)
    then show False
      using extracted_lookup(1) [OF look] e by simp
  qed
qed

lemma hd_texts_of:
  "texts_of js k \<noteq> [] \<Longrightarrow> texts_of js k ! 0 = cssText (snd (last (filter (\<lambda>j. fst j = k) js)))"
  by (simp add: texts_of_def hd_conv_nth [symmetric] hd_rev last_map)

text \<open>
  Claim C9. For the map an extraction has produced, the compiler returns normally; the
  compiled map has the same selectors, each once; the compiled sheet of a selector has a
  single rule, the layer block around the text at index 0 of the accumulator, and that
  text is the one of the latest insertion made for the selector.
\<close>

theorem convertToCSSStyleSheets_spec:
  assumes "refreshCrossRootStyles check h0 sheets = Inr (h, styles)"
  shows "\<exists>h' compiled.
     convertToCSSStyleSheets check h styles = Inr (h', compiled)
     \<and> R_keys compiled = R_keys styles \<and> distinct (R_keys compiled)
     \<and> (\<forall>k acc. map_of styles k = Some acc \<longrightarrow>
           (\<exists>sheet. map_of compiled k = Some sheet
              \<and> cssRulesOf h' sheet = [''@layer --crossroot {'' @ cssRulesOf h acc ! 0 @ ''}'']
              \<and> cssRulesOf h acc ! 0
                  = cssText (snd (last (filter (\<lambda>j. fst j = k) (insertions sheets))))))"
proof -
  let ?js = "insertions sheets"
  let ?F = "\<lambda>(k, acc). compiled_rules (cssRulesOf h acc)"
  let ?h' = "h @ map ?F styles"
  let ?c = "zip (map fst styles) [length h ..< length h + length styles]"
  have ex: "extracted h0 ?js = (h, styles)"
    using assms unfolding refresh_extracted by simp
  then have h: "h = fst (extracted h0 ?js)" and st: "styles = snd (extracted h0 ?js)"
    by simp_all
  have d: "distinct (map fst styles)"
    unfolding st by (rule extracted_valid(1))
  have ne: "\<forall>(k, acc) \<in> set styles. cssRulesOf h acc \<noteq> []"
    unfolding st h by (rule extracted_valid(2))
  have ord: "enum_ordered (map fst styles)"
    unfolding st by (rule extracted_valid(3))
  have conv: "convertToCSSStyleSheets check h styles = Inr (?h', ?c)"
    using d ne ord by (rule compile_closed)
  have keys: "R_keys ?c = R_keys styles"
    by (simp add: R_keys_def)
  have dk: "distinct (R_keys ?c)"
    using d keys by (simp add: R_keys_def)
  have each: "\<exists>sheet. map_of ?c k = Some sheet
      \<and> cssRulesOf ?h' sheet = [''@layer --crossroot {'' @ cssRulesOf h acc ! 0 @ ''}'']
      \<and> cssRulesOf h acc ! 0 = cssText (snd (last (filter (\<lambda>j. fst j = k) ?js)))"
    if look: "map_of styles k = Some acc" for k acc
  proof -
    obtain sheet where s: "map_of ?c k = Some sheet" "cssRulesOf ?h' sheet = ?F (k, acc)"
      using compile_lookup [OF d look, of h ?F] by blast
    have t: "cssRulesOf h acc = texts_of ?js k"
      using look unfolding st h by (rule extracted_lookup(1))
    have "k \<in> fst ` set ?js"
      using look unfolding st by (rule extracted_lookup(2))
    then have "texts_of ?js k \<noteq> []" by (rule texts_of_nonempty)
    then have "cssRulesOf h acc ! 0 = cssText (snd (last (filter (\<lambda>j. fst j = k) ?js)))"
      unfolding t by (rule hd_texts_of)
    then show ?thesis using s by (simp add: compiled_rules_def)
  qed
  from conv keys dk each show ?thesis by blast
qed

lemma widget_sheet_parses:
  "parseMediaQuery ''--crossroot(.widget)'' = \<lparr> isCrossRoot = True, selector = ''.widget'' \<rparr>"
  by (simp add: parseMediaQuery_def regex_match_def marker_def trim_def is_js_space_def Let_def)

lemma refresh_two_rules:
  "refreshCrossRootStyles example_check []
       [head_sheet ''--crossroot(.widget)'' [red_rule, blue_rule]]
     = Inr ([[''p { color: blue; }'', ''p { color: red; }'']], [(''.widget'', 0)])"
  by code_simp

theorem convertToCSSStyleSheets_spec_witness:
  "\<exists>h' compiled sheet.
     convertToCSSStyleSheets example_check
         [[''p { color: blue; }'', ''p { color: red; }'']] [(''.widget'', 0)]
       = Inr (h', compiled)
     \<and> R_keys compiled = [''.widget'']
     \<and> map_of compiled ''.widget'' = Some sheet
     \<and> cssRulesOf h' sheet = [''@layer --crossroot {p { color: blue; }}'']"
proof -
  let ?h = "[[''p { color: blue; }'', ''p { color: red; }'']]"
  have look: "map_of [(''.widget'', 0::nat)] ''.widget'' = Some 0" by simp
  have first: "cssRulesOf ?h 0 ! 0 = ''p { color: blue; }''"
    by (simp add: cssRulesOf_def)
  obtain h' compiled where r:
    "convertToCSSStyleSheets example_check ?h [(''.widget'', 0)] = Inr (h', compiled)"
    "R_keys compiled = R_keys [(''.widget'', 0)]"
    "\<forall>k acc. map_of [(''.widget'', 0)] k = Some acc \<longrightarrow>
       (\<exists>sheet. map_of compiled k = Some sheet
          \<and> cssRulesOf h' sheet = [''@layer --crossroot {'' @ cssRulesOf ?h acc ! 0 @ ''}'']
          \<and> cssRulesOf ?h acc ! 0
              = cssText (snd (last (filter (\<lambda>j. fst j = k)
                  (insertions [head_sheet ''--crossroot(.widget)'' [red_rule, blue_rule]])))))"
    using convertToCSSStyleSheets_spec [OF refresh_two_rules] by blast
  from r(3) look obtain sheet where
    "map_of compiled ''.widget'' = Some sheet"
    "cssRulesOf h' sheet = [''@layer --crossroot {'' @ cssRulesOf ?h 0 ! 0 @ ''}'']"
    by blast
  then show ?thesis
    using r(1,2) first by (simp add: R_keys_def)
qed

subsection \<open>Facts about Reset and Apply\<close>

lemma outcome_page_simps [simp]:
  "outcome_page (Inr d) = d" "outcome_page (Inl (e, d)) = d"
  by (simp_all add: outcome_page_def)

lemma thrown_simps [simp]:
  "thrown (Inr d) = None" "thrown (Inl (e, d)) = Some e"
  by (simp_all add: thrown_def)

lemma same_shape_refl [simp]: "same_shape d d"
  by (simp add: same_shape_def)

lemma same_shape_trans: "same_shape d d1 \<Longrightarrow> same_shape d1 d2 \<Longrightarrow> same_shape d d2"
  by (simp add: same_shape_def)

lemma same_shape_shadowRoot: "same_shape d d' \<Longrightarrow> shadowRoot d' e = shadowRoot d e"
  by (simp add: same_shape_def shadowRoot_def)

lemma apply_selector_shape:
  "same_shape d (outcome_page r) \<Longrightarrow> same_shape d (outcome_page (apply_selector e C r k))"
  by (cases r) (auto simp: same_shape_def split: option.splits)

lemma apply_fold_shape:
  "same_shape d (outcome_page r) \<Longrightarrow> same_shape d (outcome_page (foldl (apply_selector e C) r ks))"
  by (induction ks arbitrary: r) (simp_all add: apply_selector_shape)

lemma applyCrossRootStyles_shape: "same_shape d (outcome_page (applyCrossRootStyles d e C))"
  by (simp add: applyCrossRootStyles_def apply_fold_shape)

lemma clearShadowRootStyles_shape: "same_shape d (outcome_page (clearShadowRootStyles d e l))"
  by (simp add: clearShadowRootStyles_def same_shape_def split: option.splits)

lemma sync_element_shape:
  assumes "same_shape d (outcome_page r)"
  shows "same_shape d (outcome_page (sync_element init C r e))"
proof (cases r)
  case (Inl x)
  then show ?thesis using assms by simp
next
  case (Inr d0)
  then have d0: "same_shape d d0" using assms by simp
  show ?thesis
  proof (cases "clearShadowRootStyles d0 e (case init e of None \<Rightarrow> [] | Some l \<Rightarrow> l)")
    case (Inl x)
    then have "same_shape d0 (outcome_page (Inl x))"
      using clearShadowRootStyles_shape [of d0 e] by metis
    then show ?thesis using Inr Inl d0 same_shape_trans by auto
  next
    case Inr': (Inr d1)
    then have "same_shape d0 d1"
      using clearShadowRootStyles_shape [of d0 e "case init e of None \<Rightarrow> [] | Some l \<Rightarrow> l"]
      by simp
    then have "same_shape d (outcome_page (applyCrossRootStyles d1 e C))"
      using d0 applyCrossRootStyles_shape same_shape_trans by blast
    then show ?thesis using Inr Inr' by simp
  qed
qed

lemma sync_fold_shape:
  "same_shape d (outcome_page r) \<Longrightarrow> same_shape d (outcome_page (foldl (sync_element init C) r es))"
  by (induction es arbitrary: r) (simp_all add: sync_element_shape)

lemma matching_refs_snoc:
  "matching_refs d e C (ks @ [k]) =
     matching_refs d e C ks @
       (if matchesSel d e k then (case map_of C k of None \<Rightarrow> [] | Some a \<Rightarrow> [Own a]) else [])"
  by (simp add: matching_refs_def)

lemma matching_refs_shape:
  "same_shape d d' \<Longrightarrow> matching_refs d' e C ks = matching_refs d e C ks"
  by (simp add: matching_refs_def same_shape_def)

lemma fold_apply_Inl: "foldl (apply_selector e C) (Inl x) ks = Inl x"
  by (induction ks) simp_all

lemma fold_sync_Inl: "foldl (sync_element init C) (Inl x) es = Inl x"
  by (induction es) simp_all

text \<open>
  When the loop of Apply over the selectors \<open>ks\<close> returns, it has appended the references
  for the selectors the host matches.
\<close>

lemma apply_fold_returns:
  assumes "shadowRoot d e = Some sr" and "set ks \<subseteq> fst ` set C"
    and "foldl (apply_selector e C) (Inr d) ks = Inr d'"
  shows "d' = d\<lparr>adoptedStyleSheets :=
               (adoptedStyleSheets d)(sr := adoptedStyleSheets d sr @ matching_refs d e C ks)\<rparr>"
  using assms(2,3)
proof (induction ks arbitrary: d' rule: rev_induct)
  case Nil
  then show ?case by (simp add: matching_refs_def)
next
  case (snoc k ks)
  let ?d1 = "d\<lparr>adoptedStyleSheets :=
      (adoptedStyleSheets d)(sr := adoptedStyleSheets d sr @ matching_refs d e C ks)\<rparr>"
  have sub: "set ks \<subseteq> fst ` set C" using snoc.prems(1) by simp
  have step: "apply_selector e C (foldl (apply_selector e C) (Inr d) ks) k = Inr d'"
    using snoc.prems(2) by simp
  obtain d1 where d1: "foldl (apply_selector e C) (Inr d) ks = Inr d1"
    using step by (cases "foldl (apply_selector e C) (Inr d) ks") auto
  have IH: "d1 = ?d1"
    using sub d1 by (rule snoc.IH)
  have sr: "shadowRoot ?d1 e = Some sr"
    using assms(1) by (simp add: shadowRoot_def)
  have "k \<in> fst ` set C" using snoc.prems(1) by simp
  then obtain a where a: "map_of C k = Some a"
    by (metis domD dom_map_of_conv_image_fst)
  have last: "apply_selector e C (Inr ?d1) k = Inr d'"
    using step unfolding d1 IH .
  have sel: "isSelector d k"
    using last by (auto split: if_splits)
  let ?d2 = "d\<lparr>adoptedStyleSheets :=
      (adoptedStyleSheets d)(sr := adoptedStyleSheets d sr @ matching_refs d e C (ks @ [k]))\<rparr>"
  have "apply_selector e C (Inr ?d1) k = Inr ?d2"
  proof (cases "matchesSel d e k")
    case True
    then show ?thesis
      using sel sr a by (simp add: matching_refs_snoc)
  next
    case False
    then show ?thesis
      using sel by (simp add: matching_refs_snoc)
  qed
  then have "Inr d' = (Inr ?d2 :: error \<times> page + page)"
    unfolding last .
  then show ?case by (simp only: sum.inject)
qed

lemma applyCrossRootStyles_returns:
  assumes "shadowRoot d e = Some sr" and "applyCrossRootStyles d e C = Inr d'"
  shows "d' = d\<lparr>adoptedStyleSheets :=
               (adoptedStyleSheets d)(sr := adoptedStyleSheets d sr @ matching_refs d e C (R_keys C))\<rparr>"
proof (rule apply_fold_returns [OF assms(1)])
  show "set (R_keys C) \<subseteq> fst ` set C" by (simp add: R_keys_def)
  show "foldl (apply_selector e C) (Inr d) (R_keys C) = Inr d'"
    using assms(2) by (simp add: applyCrossRootStyles_def)
qed

lemma sync_element_returns:
  assumes "sync_element init C (Inr d) e = Inr d'"
  shows "\<exists>sr. shadowRoot d e = Some sr
      \<and> d' = d\<lparr>adoptedStyleSheets :=
               (adoptedStyleSheets d)(sr := baseline init e @ matching_refs d e C (R_keys C))\<rparr>"
proof -
  obtain sr where sr: "shadowRoot d e = Some sr"
    using assms by (cases "shadowRoot d e") (simp_all add: clearShadowRootStyles_def)
  let ?d1 = "d\<lparr>adoptedStyleSheets := (adoptedStyleSheets d)(sr := baseline init e)\<rparr>"
  have c: "clearShadowRootStyles d e (baseline init e) = Inr ?d1"
    using sr by (simp add: clearShadowRootStyles_def)
  have ap: "applyCrossRootStyles ?d1 e C = Inr d'"
    using assms c by (simp add: baseline_def [symmetric])
  have sr1: "shadowRoot ?d1 e = Some sr"
    using sr by (simp add: shadowRoot_def)
  have m: "matching_refs ?d1 e C (R_keys C) = matching_refs d e C (R_keys C)"
    by (rule matching_refs_shape) (simp add: same_shape_def)
  have "d' = ?d1\<lparr>adoptedStyleSheets :=
      (adoptedStyleSheets ?d1)(sr := adoptedStyleSheets ?d1 sr @ matching_refs ?d1 e C (R_keys C))\<rparr>"
    using sr1 ap by (rule applyCrossRootStyles_returns)
  then have "d' = d\<lparr>adoptedStyleSheets :=
      (adoptedStyleSheets d)(sr := baseline init e @ matching_refs d e C (R_keys C))\<rparr>"
    unfolding m by simp
  then show ?thesis using sr by blast
qed

text \<open>
  When the loop of a sync pass over the hosts \<open>es\<close> returns: every host has an open shadow
  root; where the shadow roots of the hosts differ from one another, each holds the host's
  baseline followed by the references Apply appends; other adopted lists are as before.
\<close>

lemma sync_fold_returns:
  assumes "foldl (sync_element init C) (Inr d) es = Inr d'"
  shows "same_shape d d' \<and> (\<forall>e \<in> set es. shadowRoot d e \<noteq> None)
      \<and> (inj_on (shadowRoot d) (set es) \<longrightarrow>
           (\<forall>e \<in> set es. \<forall>sr. shadowRoot d e = Some sr \<longrightarrow>
              adoptedStyleSheets d' sr = baseline init e @ matching_refs d e C (R_keys C)))
      \<and> (\<forall>sr. (\<forall>e \<in> set es. shadowRoot d e \<noteq> Some sr) \<longrightarrow>
            adoptedStyleSheets d' sr = adoptedStyleSheets d sr)"
  using assms
proof (induction es arbitrary: d' rule: rev_induct)
  case Nil
  then show ?case by auto
next
  case (snoc e es)
  have step: "sync_element init C (foldl (sync_element init C) (Inr d) es) e = Inr d'"
    using snoc.prems by simp
  obtain d1 where d1: "foldl (sync_element init C) (Inr d) es = Inr d1"
    using step by (cases "foldl (sync_element init C) (Inr d) es") auto
  note IH = snoc.IH [OF d1]
  have shape1: "same_shape d d1" and roots1: "\<forall>e \<in> set es. shadowRoot d e \<noteq> None"
    and other1: "\<forall>sr. (\<forall>e \<in> set es. shadowRoot d e \<noteq> Some sr) \<longrightarrow>
        adoptedStyleSheets d1 sr = adoptedStyleSheets d sr"
    using IH by blast+
  have inj1: "\<forall>e \<in> set es. \<forall>sr. shadowRoot d e = Some sr \<longrightarrow>
          adoptedStyleSheets d1 sr = baseline init e @ matching_refs d e C (R_keys C)"
    if "inj_on (shadowRoot d) (set es)"
    using IH that by blast
  obtain sr where sr1: "shadowRoot d1 e = Some sr"
    and d': "d' = d1\<lparr>adoptedStyleSheets :=
      (adoptedStyleSheets d1)(sr := baseline init e @ matching_refs d1 e C (R_keys C))\<rparr>"
    using sync_element_returns [of init C d1 e d'] step d1 by auto
  have sr: "shadowRoot d e = Some sr"
    using sr1 shape1 by (simp add: same_shape_shadowRoot)
  have m: "matching_refs d1 e C (R_keys C) = matching_refs d e C (R_keys C)"
    using shape1 by (rule matching_refs_shape)
  have shape: "same_shape d d'"
    using shape1 unfolding d' by (simp add: same_shape_def)
  have roots: "\<forall>e' \<in> set (es @ [e]). shadowRoot d e' \<noteq> None"
    using roots1 sr by simp
  have a: "\<forall>e' \<in> set (es @ [e]). \<forall>sr'. shadowRoot d e' = Some sr' \<longrightarrow>
      adoptedStyleSheets d' sr' = baseline init e' @ matching_refs d e' C (R_keys C)"
    if inj: "inj_on (shadowRoot d) (set (es @ [e]))"
  proof (intro ballI allI impI)
    fix e' sr' assume e': "e' \<in> set (es @ [e])" and sr': "shadowRoot d e' = Some sr'"
    show "adoptedStyleSheets d' sr' = baseline init e' @ matching_refs d e' C (R_keys C)"
    proof (cases "sr' = sr")
      case True
      then have "e' = e"
        using inj e' sr sr' by (auto simp: inj_on_def)
      then show ?thesis using True m sr sr' unfolding d' by simp
    next
      case False
      then have "e' \<in> set es" using e' sr sr' by auto
      moreover have "inj_on (shadowRoot d) (set es)"
        using inj by (auto simp: inj_on_def)
      ultimately show ?thesis using inj1 sr' False unfolding d' by simp
    qed
  qed
  have b: "\<forall>sr'. (\<forall>e' \<in> set (es @ [e]). shadowRoot d e' \<noteq> Some sr') \<longrightarrow>
      adoptedStyleSheets d' sr' = adoptedStyleSheets d sr'"
    using other1 sr unfolding d' by auto
  from shape roots a b show ?case by blast
qed

text \<open>
  For a host with an open shadow root, Reset returns, and Apply and the loop of a pass
  throw nothing but the \<^verbatim>\<open>SyntaxError\<close> of \<^verbatim>\<open>element.matches\<close>.
\<close>

lemma apply_selector_thrown:
  assumes "same_shape d (outcome_page r)" and "shadowRoot d e \<noteq> None" and "k \<in> fst ` set C"
    and "thrown r \<noteq> Some TypeError"
  shows "thrown (apply_selector e C r k) \<noteq> Some TypeError"
proof (cases r)
  case (Inl x)
  then show ?thesis using assms(4) by simp
next
  case (Inr d1)
  then have "shadowRoot d1 e \<noteq> None"
    using assms(1,2) by (simp add: same_shape_shadowRoot)
  moreover obtain a where "map_of C k = Some a"
    using assms(3) by (metis domD dom_map_of_conv_image_fst)
  ultimately show ?thesis using Inr by auto
qed

lemma apply_fold_thrown:
  assumes "shadowRoot d e \<noteq> None"
  shows "same_shape d (outcome_page r) \<Longrightarrow> set ks \<subseteq> fst ` set C \<Longrightarrow>
     thrown r \<noteq> Some TypeError \<Longrightarrow>
     thrown (foldl (apply_selector e C) r ks) \<noteq> Some TypeError"
proof (induction ks arbitrary: r)
  case Nil
  then show ?case by simp
next
  case (Cons k ks)
  have "same_shape d (outcome_page (apply_selector e C r k))"
    using Cons.prems(1) by (rule apply_selector_shape)
  moreover have "thrown (apply_selector e C r k) \<noteq> Some TypeError"
    using apply_selector_thrown [OF Cons.prems(1) assms _ Cons.prems(3)] Cons.prems(2) by simp
  ultimately show ?case using Cons.IH Cons.prems(2) by simp
qed

lemma applyCrossRootStyles_thrown:
  "shadowRoot d e \<noteq> None \<Longrightarrow> thrown (applyCrossRootStyles d e C) \<noteq> Some TypeError"
  unfolding applyCrossRootStyles_def
  by (rule apply_fold_thrown [where d = d]) (simp_all add: R_keys_def)

lemma sync_element_thrown:
  assumes "same_shape d (outcome_page r)" and "shadowRoot d e \<noteq> None"
    and "thrown r \<noteq> Some TypeError"
  shows "thrown (sync_element init C r e) \<noteq> Some TypeError"
proof (cases r)
  case (Inl x)
  then show ?thesis using assms(3) by simp
next
  case (Inr d0)
  then have "shadowRoot d0 e \<noteq> None"
    using assms(1,2) by (simp add: same_shape_shadowRoot)
  then obtain sr where sr: "shadowRoot d0 e = Some sr" by blast
  let ?d1 = "d0\<lparr>adoptedStyleSheets := (adoptedStyleSheets d0)(sr := baseline init e)\<rparr>"
  have "shadowRoot ?d1 e \<noteq> None"
    using sr by (simp add: shadowRoot_def)
  then have "thrown (applyCrossRootStyles ?d1 e C) \<noteq> Some TypeError"
    by (rule applyCrossRootStyles_thrown)
  then show ?thesis
    using Inr sr by (simp add: clearShadowRootStyles_def baseline_def)
qed

lemma sync_fold_thrown:
  "same_shape d (outcome_page r) \<Longrightarrow> \<forall>e \<in> set es. shadowRoot d e \<noteq> None \<Longrightarrow>
     thrown r \<noteq> Some TypeError \<Longrightarrow>
     thrown (foldl (sync_element init C) r es) \<noteq> Some TypeError"
proof (induction es arbitrary: r)
  case Nil
  then show ?case by simp
next
  case (Cons e es)
  have "same_shape d (outcome_page (sync_element init C r e))"
    using Cons.prems(1) by (rule sync_element_shape)
  moreover have "thrown (sync_element init C r e) \<noteq> Some TypeError"
    using sync_element_thrown [OF Cons.prems(1) _ Cons.prems(3)] Cons.prems(2) by simp
  ultimately show ?case using Cons.IH Cons.prems(2) by simp
qed

subsection \<open>Facts about a sync pass\<close>

lemma rules_of_ref_Own: "rules_of_ref h (Own a) = Some (cssRulesOf h a)"
  by (simp add: rules_of_ref_def)

lemma zip_lookup:
  assumes "distinct ks" and "k \<in> set ks"
  shows "\<exists>a. map_of (zip ks [length h ..< length h + length ks]) k = Some a
      \<and> cssRulesOf (h @ map F ks) a = F k"
proof -
  obtain i where i: "i < length ks" "ks ! i = k"
    using assms(2) by (metis in_set_conv_nth)
  have "map_of (zip ks [length h ..< length h + length ks]) k = Some (length h + i)"
    using map_of_zip_upt [OF assms(1) i(1), of "length h"] i(2) by simp
  moreover have "cssRulesOf (h @ map F ks) (length h + i) = F k"
    using i by (simp add: cssRulesOf_def)
  ultimately show ?thesis by blast
qed

lemma compile_extracted:
  "convertToCSSStyleSheets check (fst (extracted h js)) (snd (extracted h js))
     = Inr (compiled_heap h js, compiled_map h js)"
proof -
  let ?ks = "selectors_of js"
  let ?h1 = "fst (extracted h js)"
  let ?st = "snd (extracted h js)"
  have keys: "map fst ?st = enum_keys ?ks"
    by (simp add: extracted_def keys_object_of)
  have len: "length ?st = length ?ks"
    using arg_cong [OF keys, of length] by simp
  have h1: "?h1 = h @ map (texts_of js) ?ks"
    by (simp add: extracted_def)
  have "map (\<lambda>(k, acc). compiled_rules (cssRulesOf ?h1 acc)) ?st
      = map (\<lambda>p. compiled_rules (texts_of js (fst p))) ?st"
  proof (rule map_cong [OF refl])
    fix p assume p: "p \<in> set ?st"
    obtain k acc where ka: "p = (k, acc)" by (cases p)
    have "map_of ?st k = Some acc"
      using p ka extracted_valid(1) [of h js] by simp
    then have "cssRulesOf ?h1 acc = texts_of js k"
      by (rule extracted_lookup(1))
    then show "(case p of (k, acc) \<Rightarrow> compiled_rules (cssRulesOf ?h1 acc))
        = compiled_rules (texts_of js (fst p))"
      using ka by simp
  qed
  also have "\<dots> = map (\<lambda>k. compiled_rules (texts_of js k)) (map fst ?st)"
    by (simp add: comp_def)
  finally have heap: "map (\<lambda>(k, acc). compiled_rules (cssRulesOf ?h1 acc)) ?st
      = map (\<lambda>k. compiled_rules (texts_of js k)) (enum_keys ?ks)"
    using keys by simp
  have "convertToCSSStyleSheets check ?h1 ?st
      = Inr (?h1 @ map (\<lambda>(k, acc). compiled_rules (cssRulesOf ?h1 acc)) ?st,
             zip (map fst ?st) [length ?h1 ..< length ?h1 + length ?st])"
    by (rule compile_closed [OF extracted_valid])
  then show ?thesis
    unfolding heap keys len by (simp add: compiled_heap_def compiled_map_def h1)
qed

lemma compiled_map_lookup:
  assumes "k \<in> set (selectors_of js)"
  shows "\<exists>a. map_of (compiled_map h js) k = Some a
      \<and> cssRulesOf (compiled_heap h js) a = compiled_rules (texts_of js k)"
proof -
  let ?ks = "selectors_of js"
  let ?eks = "enum_keys ?ks"
  let ?h1 = "h @ map (texts_of js) ?ks"
  have d: "distinct ?eks" by (simp add: distinct_enum_keys)
  have k: "k \<in> set ?eks" using assms by simp
  have "\<exists>a. map_of (zip ?eks [length ?h1 ..< length ?h1 + length ?eks]) k = Some a
      \<and> cssRulesOf (?h1 @ map (\<lambda>k. compiled_rules (texts_of js k)) ?eks) a
          = compiled_rules (texts_of js k)"
    using d k by (rule zip_lookup)
  then show ?thesis
    by (simp add: compiled_map_def compiled_heap_def)
qed

lemma R_keys_compiled_map: "R_keys (compiled_map h js) = enum_keys (selectors_of js)"
  by (simp add: compiled_map_def R_keys_def map_fst_zip)

lemma refresh_any_heap:
  assumes "refreshCrossRootStyles check h sheets = Inr X"
  shows "refreshCrossRootStyles check h0 sheets = Inr (extracted h0 (insertions sheets))"
  using assms unfolding refresh_extracted by simp

lemma compiled_selectors_eq:
  assumes "refreshCrossRootStyles check h sheets = Inr X"
  shows "compiled_selectors check sheets = enum_keys (selectors_of (insertions sheets))"
  using refresh_any_heap [OF assms, of "[]"] compile_extracted [of check "[]" "insertions sheets"]
  by (simp add: compiled_selectors_def R_keys_compiled_map case_prod_beta)

lemma distinct_compiled_selectors: "distinct (compiled_selectors check sheets)"
proof (cases "refreshCrossRootStyles check [] sheets")
  case (Inl e)
  then show ?thesis by (simp add: compiled_selectors_def)
next
  case (Inr X)
  then show ?thesis by (simp add: compiled_selectors_eq distinct_enum_keys)
qed

lemma compiled_sheet_rules_eq:
  assumes "refreshCrossRootStyles check h sheets = Inr X"
    and "k \<in> set (selectors_of (insertions sheets))"
  shows "compiled_sheet_rules check sheets k = compiled_rules (texts_of (insertions sheets) k)"
proof -
  let ?js = "insertions sheets"
  obtain a where "map_of (compiled_map [] ?js) k = Some a"
    "cssRulesOf (compiled_heap [] ?js) a = compiled_rules (texts_of ?js k)"
    using compiled_map_lookup [OF assms(2), of "[]"] by blast
  then show ?thesis
    using refresh_any_heap [OF assms(1), of "[]"] compile_extracted [of check "[]" ?js]
    by (simp add: compiled_sheet_rules_def case_prod_beta)
qed

lemma matching_refs_rules:
  assumes "set xs \<subseteq> set (selectors_of js)"
  shows "map (rules_of_ref (compiled_heap h js)) (matching_refs d e (compiled_map h js) xs)
     = map (\<lambda>k. Some (compiled_rules (texts_of js k))) (filter (matchesSel d e) xs)"
  using assms
proof (induction xs)
  case Nil
  then show ?case by (simp add: matching_refs_def)
next
  case (Cons k xs)
  then have "k \<in> set (selectors_of js)" by simp
  then obtain a where a: "map_of (compiled_map h js) k = Some a"
    "cssRulesOf (compiled_heap h js) a = compiled_rules (texts_of js k)"
    using compiled_map_lookup by blast
  have IH: "map (rules_of_ref (compiled_heap h js)) (matching_refs d e (compiled_map h js) xs)
     = map (\<lambda>k. Some (compiled_rules (texts_of js k))) (filter (matchesSel d e) xs)"
    using Cons by simp
  show ?case
  proof (cases "matchesSel d e k")
    case True
    have "matching_refs d e (compiled_map h js) (k # xs)
        = Own a # matching_refs d e (compiled_map h js) xs"
      using True a(1) by (simp add: matching_refs_def)
    then show ?thesis
      using True a(2) IH by (simp add: rules_of_ref_Own)
  next
    case False
    have "matching_refs d e (compiled_map h js) (k # xs)
        = matching_refs d e (compiled_map h js) xs"
      using False by (simp add: matching_refs_def)
    then show ?thesis
      using False IH by simp
  qed
qed

text \<open>
  When a sync pass returns: every host has an open shadow root, and the pass has written
  the heap and adopted lists only. Where the hosts' shadow roots differ from one another,
  the adopted list of each is the host's baseline followed by references to sheets of the
  script's own, one per compiled selector the host matches, each holding that selector's
  compiled rule.
\<close>

lemma initializeStyles_returns:
  assumes "initializeStyles d refs es init = Inr d'"
  shows "attachedShadow d' = attachedShadow d \<and> matchesSel d' = matchesSel d
      \<and> isSelector d' = isSelector d \<and> insertRuleCheck d' = insertRuleCheck d
      \<and> sheetObject d' = sheetObject d
      \<and> (\<forall>e \<in> set es. shadowRoot d e \<noteq> None)
      \<and> (inj_on (shadowRoot d) (set es) \<longrightarrow>
           (\<forall>e \<in> set es. \<forall>sr. shadowRoot d e = Some sr \<longrightarrow>
              (\<exists>rs. adoptedStyleSheets d' sr = baseline init e @ rs
                 \<and> map (rules_of_ref (sheetHeap d')) rs
                     = map (\<lambda>k. Some (compiled_sheet_rules (insertRuleCheck d)
                                         (map (sheetObject d) refs) k))
                         (filter (matchesSel d e)
                            (compiled_selectors (insertRuleCheck d) (map (sheetObject d) refs))))))"
proof -
  let ?check = "insertRuleCheck d"
  let ?sheets = "map (sheetObject d) refs"
  let ?js = "insertions ?sheets"
  let ?ks = "enum_keys (selectors_of ?js)"
  let ?h2 = "compiled_heap (sheetHeap d) ?js"
  let ?C = "compiled_map (sheetHeap d) ?js"
  let ?d0 = "d\<lparr>sheetHeap := ?h2\<rparr>"
  obtain X where X: "refreshCrossRootStyles ?check (sheetHeap d) ?sheets = Inr X"
    using assms
    by (cases "refreshCrossRootStyles ?check (sheetHeap d) ?sheets")
      (auto simp: initializeStyles_def)
  have r: "refreshCrossRootStyles ?check (sheetHeap d) ?sheets
      = Inr (fst (extracted (sheetHeap d) ?js), snd (extracted (sheetHeap d) ?js))"
    using refresh_any_heap [OF X, of "sheetHeap d"] by simp
  have init: "initializeStyles d refs es init = foldl (sync_element init ?C) (Inr ?d0) es"
    using r compile_extracted [of ?check "sheetHeap d" ?js]
    by (simp add: initializeStyles_def case_prod_beta)
  have sh0: "shadowRoot ?d0 = shadowRoot d"
    by (simp add: shadowRoot_def fun_eq_iff)
  have fold: "foldl (sync_element init ?C) (Inr ?d0) es = Inr d'"
    using assms init by simp
  note ret = sync_fold_returns [OF fold]
  have d': "same_shape ?d0 d'" and roots: "\<forall>e \<in> set es. shadowRoot ?d0 e \<noteq> None"
    using ret by blast+
  have adopted: "\<forall>e \<in> set es. \<forall>sr. shadowRoot ?d0 e = Some sr \<longrightarrow>
          adoptedStyleSheets d' sr = baseline init e @ matching_refs ?d0 e ?C (R_keys ?C)"
    if "inj_on (shadowRoot ?d0) (set es)"
    using ret that by blast
  have heap: "sheetHeap d' = ?h2"
    using d' by (simp add: same_shape_def)
  have shape: "attachedShadow d' = attachedShadow d" "matchesSel d' = matchesSel d"
    "isSelector d' = isSelector d" "insertRuleCheck d' = insertRuleCheck d"
    "sheetObject d' = sheetObject d"
    using d' by (simp_all add: same_shape_def)
  have each: "\<exists>rs. adoptedStyleSheets d' sr = baseline init e @ rs
        \<and> map (rules_of_ref (sheetHeap d')) rs
            = map (\<lambda>k. Some (compiled_sheet_rules ?check ?sheets k))
                (filter (matchesSel d e) (compiled_selectors ?check ?sheets))"
    if inj: "inj_on (shadowRoot d) (set es)" and e: "e \<in> set es" and sr: "shadowRoot d e = Some sr"
    for e sr
  proof -
    let ?rs = "matching_refs ?d0 e ?C (R_keys ?C)"
    have 1: "adoptedStyleSheets d' sr = baseline init e @ ?rs"
      using adopted inj e sr sh0 by simp
    have "map (rules_of_ref ?h2) (matching_refs ?d0 e ?C ?ks)
        = map (\<lambda>k. Some (compiled_rules (texts_of ?js k))) (filter (matchesSel ?d0 e) ?ks)"
      by (rule matching_refs_rules) simp
    also have "\<dots> = map (\<lambda>k. Some (compiled_sheet_rules ?check ?sheets k))
        (filter (matchesSel ?d0 e) ?ks)"
      by (rule map_cong [OF refl]) (simp add: compiled_sheet_rules_eq [OF X])
    finally have 2: "map (rules_of_ref (sheetHeap d')) ?rs
        = map (\<lambda>k. Some (compiled_sheet_rules ?check ?sheets k))
            (filter (matchesSel d e) (compiled_selectors ?check ?sheets))"
      by (simp add: heap R_keys_compiled_map compiled_selectors_eq [OF X])
    from 1 2 show ?thesis by blast
  qed
  from shape roots sh0 each show ?thesis by auto
qed

subsection \<open>Facts about the script's state\<close>

lemma same_script_refl [simp]: "same_script s s"
  by (simp add: same_script_def)

lemma same_script_trans: "same_script s s1 \<Longrightarrow> same_script s1 s2 \<Longrightarrow> same_script s s2"
  by (simp add: same_script_def)

lemma same_script_shadowRoot: "same_script s s' \<Longrightarrow> shadowRoot (doc s') = shadowRoot (doc s)"
  by (simp add: same_script_def shadowRoot_def fun_eq_iff)

lemma initCallback_returns:
  assumes "initCallback s = Inr s'"
  shows "same_script s s' \<and> tracked_ok s
      \<and> (inj_on (shadowRoot (doc s)) (set (stylableElements s)) \<longrightarrow>
           (\<forall>e \<in> set (stylableElements s). \<forall>sr. shadowRoot (doc s) e = Some sr \<longrightarrow>
              (\<exists>rs. adoptedStyleSheets (doc s') sr = baseline (initialShadowRootStyles s) e @ rs
                 \<and> map (rules_of_ref (sheetHeap (doc s'))) rs
                     = map (\<lambda>k. Some (compiled_sheet_rules (insertRuleCheck (doc s))
                                         (captured_sheets s) k))
                         (filter (matchesSel (doc s) e)
                            (compiled_selectors (insertRuleCheck (doc s)) (captured_sheets s))))))"
proof -
  obtain d' where d': "initializeStyles (doc s) (styleSheetsVar s) (stylableElements s)
      (initialShadowRootStyles s) = Inr d'" and s': "s' = s\<lparr>doc := d'\<rparr>"
    using assms
    by (cases "initializeStyles (doc s) (styleSheetsVar s) (stylableElements s)
        (initialShadowRootStyles s)")
      (auto simp: initCallback_def with_doc_def)
  note ret = initializeStyles_returns [OF d']
  have shape: "attachedShadow d' = attachedShadow (doc s)" "matchesSel d' = matchesSel (doc s)"
    "isSelector d' = isSelector (doc s)" "insertRuleCheck d' = insertRuleCheck (doc s)"
    "sheetObject d' = sheetObject (doc s)"
    using ret by blast+
  have 1: "same_script s s'"
    using shape unfolding s' by (simp add: same_script_def)
  have 2: "tracked_ok s"
    using ret unfolding tracked_ok_def by blast
  have 3: "inj_on (shadowRoot (doc s)) (set (stylableElements s)) \<longrightarrow>
       (\<forall>e \<in> set (stylableElements s). \<forall>sr. shadowRoot (doc s) e = Some sr \<longrightarrow>
          (\<exists>rs. adoptedStyleSheets d' sr = baseline (initialShadowRootStyles s) e @ rs
             \<and> map (rules_of_ref (sheetHeap d')) rs
                 = map (\<lambda>k. Some (compiled_sheet_rules (insertRuleCheck (doc s))
                                     (captured_sheets s) k))
                     (filter (matchesSel (doc s) e)
                        (compiled_selectors (insertRuleCheck (doc s)) (captured_sheets s)))))"
    using ret unfolding captured_sheets_def by blast
  from 1 2 3 show ?thesis unfolding s' by simp
qed

lemma passes_Suc_end:
  "passes (Suc n) s = (case passes n s of Inl x \<Rightarrow> Inl x | Inr s1 \<Rightarrow> initCallback s1)"
proof (induction n arbitrary: s)
  case 0
  then show ?case by (simp split: sum.splits)
next
  case (Suc n)
  show ?case
  proof (cases "initCallback s")
    case (Inl x)
    then show ?thesis by simp
  next
    case (Inr s1)
    then show ?thesis using Suc [of s1] by simp
  qed
qed

lemma passes_Suc_returns:
  assumes "passes (Suc n) s = Inr s'"
  shows "\<exists>s1. passes n s = Inr s1 \<and> initCallback s1 = Inr s'"
  using assms unfolding passes_Suc_end by (cases "passes n s") simp_all

lemma passes_same: "passes n s = Inr s' \<Longrightarrow> same_script s s'"
proof (induction n arbitrary: s')
  case 0
  then show ?case by simp
next
  case (Suc n)
  obtain s1 where s1: "passes n s = Inr s1" "initCallback s1 = Inr s'"
    using passes_Suc_returns [OF Suc.prems] by blast
  have "same_script s s1" using s1(1) by (rule Suc.IH)
  moreover have "same_script s1 s'" using initCallback_returns [OF s1(2)] by blast
  ultimately show ?case by (rule same_script_trans)
qed

text \<open>
  Claim C8, for passes that return. Take a state in which no two tracked hosts share a
  shadow root, and \<open>n > 0\<close> sync passes in a row none of which throws. Then a tracked host
  has an open shadow root, and the adopted list there is the host's recorded baseline
  followed by one sheet of the script's own per compiled selector the host matches (no
  selector occurs twice), each holding the rule compiled for that selector; so its length
  is the length of the baseline plus the number of matching selectors, whatever \<open>n\<close> is.
\<close>

theorem passes_idempotent:
  assumes "inj_on (shadowRoot (doc s)) (set (stylableElements s))"
    and "e \<in> set (stylableElements s)"
    and "0 < n"
    and "passes n s = Inr s'"
  shows "\<exists>sr rs. shadowRoot (doc s) e = Some sr
      \<and> adoptedStyleSheets (doc s') sr = baseline (initialShadowRootStyles s) e @ rs
      \<and> map (rules_of_ref (sheetHeap (doc s'))) rs
          = map (\<lambda>k. Some (compiled_sheet_rules (insertRuleCheck (doc s)) (captured_sheets s) k))
              (filter (matchesSel (doc s) e)
                 (compiled_selectors (insertRuleCheck (doc s)) (captured_sheets s)))
      \<and> distinct (compiled_selectors (insertRuleCheck (doc s)) (captured_sheets s))
      \<and> length (adoptedStyleSheets (doc s') sr)
          = length (baseline (initialShadowRootStyles s) e)
            + length (filter (matchesSel (doc s) e)
                (compiled_selectors (insertRuleCheck (doc s)) (captured_sheets s)))"
proof -
  let ?check = "insertRuleCheck (doc s)"
  have dist: "distinct (compiled_selectors ?check (captured_sheets s))"
    by (rule distinct_compiled_selectors)
  obtain m where n: "n = Suc m" using assms(3) by (cases n) auto
  obtain s1 where s1: "passes m s = Inr s1" and last: "initCallback s1 = Inr s'"
    using passes_Suc_returns assms(4) unfolding n by blast
  have same: "same_script s s1" using s1 by (rule passes_same)
  have sh: "shadowRoot (doc s1) = shadowRoot (doc s)"
    using same by (rule same_script_shadowRoot)
  have eq: "stylableElements s1 = stylableElements s"
    "initialShadowRootStyles s1 = initialShadowRootStyles s"
    "captured_sheets s1 = captured_sheets s" "matchesSel (doc s1) = matchesSel (doc s)"
    "insertRuleCheck (doc s1) = ?check"
    using same by (simp_all add: same_script_def captured_sheets_def)
  note ret = initCallback_returns [OF last]
  have "tracked_ok s1" using ret by blast
  then obtain sr where sr: "shadowRoot (doc s) e = Some sr"
    using assms(2) sh eq(1) by (auto simp: tracked_ok_def)
  have inj1: "inj_on (shadowRoot (doc s1)) (set (stylableElements s1))"
    using assms(1) sh eq(1) by simp
  have each: "\<forall>e \<in> set (stylableElements s1). \<forall>sr. shadowRoot (doc s1) e = Some sr \<longrightarrow>
        (\<exists>rs. adoptedStyleSheets (doc s') sr = baseline (initialShadowRootStyles s1) e @ rs
           \<and> map (rules_of_ref (sheetHeap (doc s'))) rs
               = map (\<lambda>k. Some (compiled_sheet_rules (insertRuleCheck (doc s1))
                                   (captured_sheets s1) k))
                   (filter (matchesSel (doc s1) e)
                      (compiled_selectors (insertRuleCheck (doc s1)) (captured_sheets s1))))"
    using ret inj1 by blast
  obtain rs where rs:
    "adoptedStyleSheets (doc s') sr = baseline (initialShadowRootStyles s) e @ rs"
    "map (rules_of_ref (sheetHeap (doc s'))) rs
       = map (\<lambda>k. Some (compiled_sheet_rules ?check (captured_sheets s) k))
           (filter (matchesSel (doc s) e) (compiled_selectors ?check (captured_sheets s)))"
    using each assms(2) sr sh eq by auto
  have "length rs
      = length (filter (matchesSel (doc s) e) (compiled_selectors ?check (captured_sheets s)))"
    using rs(2) by (metis length_map)
  then show ?thesis using sr rs dist by auto
qed

subsection \<open>Claim C10: tracked hosts have an open shadow root\<close>

lemma callback_ok_same:
  "attachedShadow d' = attachedShadow d \<Longrightarrow> callback_ok d' c = callback_ok d c"
  by (simp add: callback_ok_def split: callback.splits)

lemma hosts_open_tracked: "hosts_open s \<Longrightarrow> tracked_ok s"
  by (auto simp: hosts_open_def tracked_ok_def shadowRoot_def)

lemma hosts_open_same:
  "hosts_open s \<Longrightarrow> stylableElements s' = stylableElements s \<Longrightarrow>
     attachedShadow (doc s') = attachedShadow (doc s) \<Longrightarrow> hosts_open s'"
  by (simp add: hosts_open_def)

lemma report_with_doc:
  "doc (report (with_doc s r)) = outcome_page r"
  "stylableElements (report (with_doc s r)) = stylableElements s"
  "frameCallbacks (report (with_doc s r)) = frameCallbacks s"
  "crossRootStylesVar (report (with_doc s r)) = crossRootStylesVar s"
  by (cases r; auto simp: report_def with_doc_def)+

text \<open>A sync pass, returning or throwing, attaches and detaches no shadow root.\<close>

lemma initializeStyles_shape:
  "attachedShadow (outcome_page (initializeStyles d refs es init)) = attachedShadow d"
proof (cases "refreshCrossRootStyles (insertRuleCheck d) (sheetHeap d) (map (sheetObject d) refs)")
  case (Inl e)
  then show ?thesis by (simp add: initializeStyles_def)
next
  case (Inr X)
  obtain h1 styles where X: "X = (h1, styles)" by (cases X)
  show ?thesis
  proof (cases "convertToCSSStyleSheets (insertRuleCheck d) h1 styles")
    case (Inl e)
    then show ?thesis using Inr X by (simp add: initializeStyles_def)
  next
    case Inr': (Inr Y)
    obtain h2 m where Y: "Y = (h2, m)" by (cases Y)
    have "same_shape (d\<lparr>sheetHeap := h2\<rparr>)
        (outcome_page (foldl (sync_element init m) (Inr (d\<lparr>sheetHeap := h2\<rparr>)) es))"
      by (rule sync_fold_shape) simp
    then show ?thesis
      using Inr X Inr' Y by (simp add: initializeStyles_def same_shape_def)
  qed
qed

lemma initCallback_keeps:
  assumes "hosts_open s"
  shows "hosts_open (report (initCallback s))
      \<and> attachedShadow (doc (report (initCallback s))) = attachedShadow (doc s)
      \<and> frameCallbacks (report (initCallback s)) = frameCallbacks s
      \<and> crossRootStylesVar (report (initCallback s)) = crossRootStylesVar s"
proof -
  have sh: "attachedShadow (doc (report (initCallback s))) = attachedShadow (doc s)"
    unfolding initCallback_def report_with_doc by (rule initializeStyles_shape)
  have rest: "stylableElements (report (initCallback s)) = stylableElements s"
    "frameCallbacks (report (initCallback s)) = frameCallbacks s"
    "crossRootStylesVar (report (initCallback s)) = crossRootStylesVar s"
    unfolding initCallback_def report_with_doc by simp_all
  have "hosts_open (report (initCallback s))"
    using assms rest(1) sh by (rule hosts_open_same)
  then show ?thesis using sh rest by simp
qed

lemma mainFrame_keeps:
  assumes "hosts_open s"
  shows "hosts_open (report (mainFrame s))
      \<and> attachedShadow (doc (report (mainFrame s))) = attachedShadow (doc s)
      \<and> frameCallbacks (report (mainFrame s)) = frameCallbacks s
      \<and> crossRootStylesVar (report (mainFrame s)) = crossRootStylesVar s"
proof (cases "initCallback s")
  case (Inl x)
  then have "report (mainFrame s) = report (initCallback s)"
    by (simp add: mainFrame_def)
  then show ?thesis using initCallback_keeps [OF assms] by simp
next
  case (Inr s1)
  then have s1: "report (initCallback s) = s1"
    by (simp add: report_def)
  have "report (mainFrame s)
      = s1\<lparr>observing := True, scriptVar := currentScript (doc s1), listening := True\<rparr>"
    using Inr by (simp add: mainFrame_def report_def)
  then show ?thesis
    using initCallback_keeps [OF assms] unfolding s1 by (auto simp: hosts_open_def)
qed

lemma attachFrame_keeps:
  assumes "hosts_open s" and "attachedShadow (doc s) e = Some (Open, sr)"
    and "attachFrame e sr s = Some r"
  shows "hosts_open (report r)
      \<and> attachedShadow (doc (report r)) = attachedShadow (doc s)
      \<and> frameCallbacks (report r) = frameCallbacks s
      \<and> crossRootStylesVar (report r) = crossRootStylesVar s"
proof (cases "isInDarkRoot (doc s) sr")
  case None
  then show ?thesis using assms(3) by (simp add: attachFrame_def)
next
  case (Some dark)
  show ?thesis
  proof (cases dark)
    case True
    then have "r = Inr s" using Some assms(3) by (simp add: attachFrame_def)
    then show ?thesis using assms(1) by (simp add: report_def)
  next
    case False
    let ?s1 = "if liveUpdateEnabled s
               then s\<lparr>stylableElements := set_add (stylableElements s) e\<rparr> else s"
    let ?s2 = "?s1\<lparr>initialShadowRootStyles :=
        (initialShadowRootStyles ?s1)(e := Some (adoptedStyleSheets (doc ?s1) sr))\<rparr>"
    have r: "r = with_doc ?s2 (applyCrossRootStyles (doc ?s2) e (crossRootStylesVar ?s2))"
      using Some False assms(3) by (simp add: attachFrame_def Let_def)
    have d2: "doc ?s2 = doc s" by simp
    have "same_shape (doc s) (outcome_page (applyCrossRootStyles (doc ?s2) e (crossRootStylesVar ?s2)))"
      using applyCrossRootStyles_shape [of "doc s" e] d2 by simp
    then have sh: "attachedShadow (doc (report r)) = attachedShadow (doc s)"
      unfolding r report_with_doc by (simp add: same_shape_def)
    have fc: "frameCallbacks (report r) = frameCallbacks s"
      "crossRootStylesVar (report r) = crossRootStylesVar s"
      unfolding r report_with_doc by simp_all
    have "set (stylableElements (report r)) \<subseteq> insert e (set (stylableElements s))"
      unfolding r report_with_doc by (auto simp: set_add_def)
    then have "hosts_open (report r)"
      using assms(1,2) sh by (auto simp: hosts_open_def)
    then show ?thesis using sh fc by simp
  qed
qed

lemma run_callbacks_keeps:
  assumes "run_callbacks cs s = Some s'" and "hosts_open s"
    and "\<forall>c \<in> set cs. callback_ok (doc s) c"
  shows "hosts_open s' \<and> attachedShadow (doc s') = attachedShadow (doc s)
      \<and> frameCallbacks s' = frameCallbacks s
      \<and> crossRootStylesVar s' = crossRootStylesVar s"
  using assms
proof (induction cs arbitrary: s)
  case Nil
  then show ?case by simp
next
  case (Cons c cs)
  obtain r where r: "run_callback c s = Some r" "run_callbacks cs (report r) = Some s'"
    using Cons.prems(1) by (auto split: option.splits)
  have keep: "hosts_open (report r) \<and> attachedShadow (doc (report r)) = attachedShadow (doc s)
      \<and> frameCallbacks (report r) = frameCallbacks s
      \<and> crossRootStylesVar (report r) = crossRootStylesVar s"
  proof (cases c)
    case MainFrame
    then show ?thesis using r(1) mainFrame_keeps [OF Cons.prems(2)] by auto
  next
    case (AttachFrame e sr)
    then have "attachedShadow (doc s) e = Some (Open, sr)"
      using Cons.prems(3) by (simp add: callback_ok_def)
    then show ?thesis
      using r(1) AttachFrame attachFrame_keeps [OF Cons.prems(2)] by simp
  qed
  then have "\<forall>c \<in> set cs. callback_ok (doc (report r)) c"
    using Cons.prems(3) callback_ok_same [of "doc (report r)" "doc s"] by simp
  then have "hosts_open s' \<and> attachedShadow (doc s') = attachedShadow (doc (report r))
      \<and> frameCallbacks s' = frameCallbacks (report r)
      \<and> crossRootStylesVar s' = crossRootStylesVar (report r)"
    using Cons.IH [OF r(2)] keep by blast
  then show ?case using keep by simp
qed

lemma attachShadow_keeps:
  assumes "invariant s"
  shows "invariant (attachShadow s e m sr)"
proof (cases "attachedShadow (doc s) e")
  case (Some x)
  then show ?thesis using assms by (simp add: attachShadow_def originalAttachShadow_def)
next
  case None
  let ?d = "(doc s)\<lparr>attachedShadow := (attachedShadow (doc s))(e := Some (m, sr)),
      shadowHost := (shadowHost (doc s))(sr := Some e),
      parentElement := (parentElement (doc s))(sr := None),
      adoptedStyleSheets := (adoptedStyleSheets (doc s))(sr := [])\<rparr>"
  have o: "originalAttachShadow (doc s) e m sr = Some ?d"
    using None by (simp add: originalAttachShadow_def)
  have keep: "attachedShadow (doc s) e' = Some x \<Longrightarrow> attachedShadow ?d e' = Some x" for e' x
    using None by auto
  have h: "hosts_open (s\<lparr>doc := ?d\<rparr>)"
    using assms None by (auto simp: invariant_def hosts_open_def)
  have c: "\<forall>c \<in> set (frameCallbacks s). callback_ok ?d c"
    using assms None by (auto simp: invariant_def callback_ok_def split: callback.splits)
  show ?thesis
  proof (cases m)
    case Open
    have "attachShadow s e m sr
        = s\<lparr>doc := ?d, frameCallbacks := frameCallbacks s @ [AttachFrame e sr]\<rparr>"
      using o Open by (simp add: attachShadow_def)
    moreover have "callback_ok ?d (AttachFrame e sr)"
      using Open by (simp add: callback_ok_def)
    ultimately show ?thesis
      using h c assms by (simp add: invariant_def hosts_open_def)
  next
    case Closed
    have "attachShadow s e m sr = s\<lparr>doc := ?d\<rparr>"
      using o Closed by (simp add: attachShadow_def)
    then show ?thesis
      using h c assms by (simp add: invariant_def)
  qed
qed

lemma step_keeps:
  assumes "invariant s" and "step s ev = Some s'"
  shows "invariant s'"
proof (cases ev)
  case (AttachShadow e m sr)
  then show ?thesis using assms attachShadow_keeps by auto
next
  case AnimationFrame
  let ?s0 = "s\<lparr>frameCallbacks := []\<rparr>"
  have "run_callbacks (frameCallbacks s) ?s0 = Some s'"
    using assms(2) AnimationFrame by simp
  moreover have "hosts_open ?s0" "\<forall>c \<in> set (frameCallbacks s). callback_ok (doc ?s0) c"
    using assms(1) by (simp_all add: invariant_def hosts_open_def)
  ultimately have "hosts_open s' \<and> frameCallbacks s' = frameCallbacks ?s0
      \<and> crossRootStylesVar s' = crossRootStylesVar ?s0"
    using run_callbacks_keeps by blast
  then show ?thesis using assms(1) by (simp add: invariant_def)
next
  case (HeadMutation sheets objs)
  let ?s1 = "s\<lparr>doc := (doc s)\<lparr>styleSheets := sheets, sheetObject := objs\<rparr>\<rparr>"
  have inv1: "hosts_open ?s1" "\<forall>c \<in> set (frameCallbacks ?s1). callback_ok (doc ?s1) c"
    using assms(1) callback_ok_same [of "doc ?s1" "doc s"]
    by (simp_all add: invariant_def hosts_open_def)
  show ?thesis
  proof (cases "observing s")
    case True
    then have s': "s' = report (initCallback ?s1)"
      using assms(2) HeadMutation by simp
    obtain s2 where "report (initCallback ?s1) = s2" "hosts_open s2"
      "attachedShadow (doc s2) = attachedShadow (doc ?s1)" "frameCallbacks s2 = frameCallbacks ?s1"
      "crossRootStylesVar s2 = crossRootStylesVar ?s1"
      using initCallback_keeps [OF inv1(1)] by simp
    then show ?thesis
      using s' inv1(2) assms(1) callback_ok_same [of "doc s2" "doc ?s1"]
      by (simp add: invariant_def)
  next
    case False
    then have "s' = ?s1" using assms(2) HeadMutation by simp
    then show ?thesis using inv1 assms(1) by (simp add: invariant_def)
  qed
next
  case DOMContentLoaded
  then have "s' = (if listening s then report (handleDOMContentLoaded (scriptVar s) s) else s)"
    using assms(2) by simp
  then show ?thesis
    using assms(1)
    by (auto simp: invariant_def hosts_open_def handleDOMContentLoaded_def report_def
        split: option.splits if_splits)
next
  case (PageAdopt sr refs)
  let ?d = "(doc s)\<lparr>adoptedStyleSheets := (adoptedStyleSheets (doc s))(sr := refs)\<rparr>"
  have "s' = s\<lparr>doc := ?d\<rparr>" using assms(2) PageAdopt by simp
  then show ?thesis
    using assms(1) callback_ok_same [of "?d" "doc s"] by (simp add: invariant_def hosts_open_def)
next
  case (DomChange pe da dp ms)
  let ?d = "(doc s)\<lparr>parentElement := pe, hasDarkenedAttr := da,
      darkenedProp := dp, matchesSel := ms\<rparr>"
  have "s' = s\<lparr>doc := ?d\<rparr>" using assms(2) DomChange by simp
  then show ?thesis
    using assms(1) callback_ok_same [of "?d" "doc s"] by (simp add: invariant_def hosts_open_def)
qed

lemma reachable_invariant: "reachable s \<Longrightarrow> invariant s"
proof (induction rule: reachable.induct)
  case (start d sc)
  then show ?case
    by (simp add: execute_script_def main_def invariant_def hosts_open_def callback_ok_def
        createCrossRootStyles_def)
next
  case (after s ev s')
  then show ?case using step_keeps by blast
qed

lemma wrapper_applies_empty_map: "reachable s \<Longrightarrow> crossRootStylesVar s = []"
  using reachable_invariant by (simp add: invariant_def createCrossRootStyles_def)

lemma run_reachable: "reachable s \<Longrightarrow> run s evs = Some s' \<Longrightarrow> reachable s'"
proof (induction evs arbitrary: s)
  case Nil
  then show ?case by simp
next
  case (Cons ev evs)
  then obtain s1 where "step s ev = Some s1" "run s1 evs = Some s'"
    by (auto split: option.splits)
  then show ?case using Cons reachable.after by blast
qed

text \<open>
  Claim C10. In every state the script can reach, every member of the Stylable-Elements
  Set has an open shadow root attached, so \<^verbatim>\<open>element.shadowRoot\<close> is not \<^verbatim>\<open>null\<close> for it:
  whatever list or map they are given, Reset-to-baseline and Apply do not throw the
  \<^verbatim>\<open>TypeError\<close> of the dereference for it, and neither does the loop of a sync pass over the
  set.
\<close>

theorem tracked_hosts_have_shadow_roots:
  assumes "reachable s"
  shows "(\<forall>e \<in> set (stylableElements s).
            (\<exists>sr. attachedShadow (doc s) e = Some (Open, sr)) \<and> shadowRoot (doc s) e \<noteq> None
            \<and> (\<forall>l. thrown (clearShadowRootStyles (doc s) e l) \<noteq> Some TypeError)
            \<and> (\<forall>C. thrown (applyCrossRootStyles (doc s) e C) \<noteq> Some TypeError))
       \<and> (\<forall>init C h.
            thrown (foldl (sync_element init C) (Inr ((doc s)\<lparr>sheetHeap := h\<rparr>))
                      (stylableElements s)) \<noteq> Some TypeError)"
proof -
  have inv: "hosts_open s"
    using reachable_invariant [OF assms] by (simp add: invariant_def)
  then have tracked: "\<forall>e \<in> set (stylableElements s). shadowRoot (doc s) e \<noteq> None"
    using hosts_open_tracked by (simp add: tracked_ok_def)
  have each: "(\<exists>sr. attachedShadow (doc s) e = Some (Open, sr)) \<and> shadowRoot (doc s) e \<noteq> None
      \<and> (\<forall>l. thrown (clearShadowRootStyles (doc s) e l) \<noteq> Some TypeError)
      \<and> (\<forall>C. thrown (applyCrossRootStyles (doc s) e C) \<noteq> Some TypeError)"
    if e: "e \<in> set (stylableElements s)" for e
  proof -
    obtain sr where sr: "attachedShadow (doc s) e = Some (Open, sr)"
      using inv e by (auto simp: hosts_open_def)
    then have root: "shadowRoot (doc s) e = Some sr"
      by (simp add: shadowRoot_def)
    have "thrown (clearShadowRootStyles (doc s) e l) \<noteq> Some TypeError" for l
      using root by (simp add: clearShadowRootStyles_def)
    moreover have "thrown (applyCrossRootStyles (doc s) e C) \<noteq> Some TypeError" for C
      using root by (intro applyCrossRootStyles_thrown) simp
    ultimately show ?thesis using sr root by blast
  qed
  have loop: "thrown (foldl (sync_element init C) (Inr ((doc s)\<lparr>sheetHeap := h\<rparr>))
      (stylableElements s)) \<noteq> Some TypeError" for init C h
  proof (rule sync_fold_thrown [where d = "(doc s)\<lparr>sheetHeap := h\<rparr>"])
    show "same_shape ((doc s)\<lparr>sheetHeap := h\<rparr>) (outcome_page (Inr ((doc s)\<lparr>sheetHeap := h\<rparr>)))"
      by simp
    show "\<forall>e \<in> set (stylableElements s). shadowRoot ((doc s)\<lparr>sheetHeap := h\<rparr>) e \<noteq> None"
      using tracked by (simp add: shadowRoot_def)
    show "thrown (Inr ((doc s)\<lparr>sheetHeap := h\<rparr>)) \<noteq> Some TypeError"
      by simp
  qed
  from each loop show ?thesis by blast
qed

subsection \<open>Runs of the script on the page with a widget\<close>

lemma map_option_SomeD: "map_option f x = Some v \<Longrightarrow> \<exists>s. x = Some s \<and> f s = v"
  by (cases x) auto

text \<open>
  The page has one sheet with a group marked \<^verbatim>\<open>--crossroot(.widget)\<close>. Element 1 attaches an
  open shadow root, the page adopts a sheet of its own there, and a frame passes. Three
  sync passes from there all return.
\<close>

lemma widget_run:
  "map_option
     (\<lambda>s. (stylableElements s, shadowRoot (doc s) 1, initialShadowRootStyles s 1,
           matchesSel (doc s) 1 ''.widget'',
           compiled_selectors (insertRuleCheck (doc s)) (captured_sheets s),
           compiled_sheet_rules (insertRuleCheck (doc s)) (captured_sheets s) ''.widget'',
           isl (passes 3 s)))
     (run (execute_script (widget_page [0] (head_sheet [] [widget_group])) (Script False))
        [AttachShadow 1 Open 9, PageAdopt 9 [Foreign 0], AnimationFrame])
   = Some ([1], Some 9, Some [Foreign 0], True, [''.widget''],
           [''@layer --crossroot {p { color: red; }}''], False)"
  by code_simp

theorem passes_idempotent_witness:
  "\<exists>s s' rs.
     run (execute_script (widget_page [0] (head_sheet [] [widget_group])) (Script False))
       [AttachShadow 1 Open 9, PageAdopt 9 [Foreign 0], AnimationFrame] = Some s
     \<and> passes 3 s = Inr s'
     \<and> adoptedStyleSheets (doc s') 9 = [Foreign 0] @ rs
     \<and> map (rules_of_ref (sheetHeap (doc s'))) rs = [Some [''@layer --crossroot {p { color: red; }}'']]
     \<and> length (adoptedStyleSheets (doc s') 9) = 2"
proof -
  obtain s where s:
    "run (execute_script (widget_page [0] (head_sheet [] [widget_group])) (Script False))
       [AttachShadow 1 Open 9, PageAdopt 9 [Foreign 0], AnimationFrame] = Some s"
    "stylableElements s = [1]" "shadowRoot (doc s) 1 = Some 9"
    "initialShadowRootStyles s 1 = Some [Foreign 0]" "matchesSel (doc s) 1 ''.widget''"
    "compiled_selectors (insertRuleCheck (doc s)) (captured_sheets s) = [''.widget'']"
    "compiled_sheet_rules (insertRuleCheck (doc s)) (captured_sheets s) ''.widget''
       = [''@layer --crossroot {p { color: red; }}'']"
    "\<not> isl (passes 3 s)"
    using map_option_SomeD [OF widget_run] by auto
  obtain s' where p: "passes 3 s = Inr s'"
    using s(8) by (cases "passes 3 s") auto
  have h1: "inj_on (shadowRoot (doc s)) (set (stylableElements s))"
    using s(2) by simp
  have h2: "1 \<in> set (stylableElements s)" using s(2) by simp
  have h3: "0 < (3::nat)" by simp
  obtain sr rs where r: "shadowRoot (doc s) 1 = Some sr"
    "adoptedStyleSheets (doc s') sr = baseline (initialShadowRootStyles s) 1 @ rs"
    "map (rules_of_ref (sheetHeap (doc s'))) rs
      = map (\<lambda>k. Some (compiled_sheet_rules (insertRuleCheck (doc s)) (captured_sheets s) k))
          (filter (matchesSel (doc s) 1)
             (compiled_selectors (insertRuleCheck (doc s)) (captured_sheets s)))"
    "length (adoptedStyleSheets (doc s') sr)
      = length (baseline (initialShadowRootStyles s) 1)
        + length (filter (matchesSel (doc s) 1)
            (compiled_selectors (insertRuleCheck (doc s)) (captured_sheets s)))"
    using passes_idempotent [OF h1 h2 h3 p] by blast
  have sr: "sr = 9" using r(1) s(3) by simp
  have b: "baseline (initialShadowRootStyles s) 1 = [Foreign 0]"
    using s(4) by (simp add: baseline_def)
  have f: "filter (matchesSel (doc s) 1)
      (compiled_selectors (insertRuleCheck (doc s)) (captured_sheets s)) = [''.widget'']"
    using s(5,6) by simp
  from r(2) b sr have 1: "adoptedStyleSheets (doc s') 9 = [Foreign 0] @ rs" by simp
  from r(3) f s(7) have 2: "map (rules_of_ref (sheetHeap (doc s'))) rs
      = [Some [''@layer --crossroot {p { color: red; }}'']]" by simp
  from r(4) b f sr have 3: "length (adoptedStyleSheets (doc s') 9) = 2" by simp
  from s(1) p 1 2 3 show ?thesis by auto
qed

text \<open>
  Claim C8 as the specification states it fails. The sheet of the page has a group marked
  \<^verbatim>\<open>--crossroot(..x)\<close> before the group marked \<^verbatim>\<open>--crossroot(.widget)\<close>. Element 1 attaches an
  open shadow root, the page adopts a sheet of its own there, and a frame passes; then two
  mutations under the head each run a sync pass, the sheet being as before. The host is
  tracked, its baseline is the page's sheet, and of the compiled selectors it matches
  \<^verbatim>\<open>.widget\<close>; but each pass throws the \<^verbatim>\<open>SyntaxError\<close> of \<^verbatim>\<open>element.matches\<close> at \<^verbatim>\<open>..x\<close>, and
  the adopted list holds the baseline and no compiled sheet.
\<close>

theorem passes_throwing_counterexample:
  "map_option
     (\<lambda>s. (stylableElements s, shadowRoot (doc s) 1, initialShadowRootStyles s 1,
           compiled_selectors (insertRuleCheck (doc s)) (captured_sheets s),
           filter (matchesSel (doc s) 1)
             (compiled_selectors (insertRuleCheck (doc s)) (captured_sheets s)),
           adoptedStyleSheets (doc s) 9, uncaught s))
     (run (execute_script (widget_page [0] (head_sheet [] [broken_group, widget_group]))
            (Script False))
        [AttachShadow 1 Open 9, PageAdopt 9 [Foreign 0], AnimationFrame,
         HeadMutation [0] (\<lambda>n. head_sheet [] [broken_group, widget_group]),
         HeadMutation [0] (\<lambda>n. head_sheet [] [broken_group, widget_group])])
   = Some ([1], Some 9, Some [Foreign 0], [''..x'', ''.widget''], [''.widget''],
           [Foreign 0], [SyntaxError, SyntaxError])"
  by code_simp

text \<open>
  A pass also throws in a state the script reaches when a captured sheet has lost its
  owner node: the host is tracked, the observer is connected, the sheet is removed from
  the document, and the pass the mutation triggers throws a \<^verbatim>\<open>TypeError\<close> in the scan.
\<close>

lemma pass_throws_after_removal:
  "map_option (\<lambda>s. (stylableElements s, observing s, adoptedStyleSheets (doc s) 9, uncaught s))
     (run (execute_script (widget_page [0] (head_sheet [] [widget_group])) (Script False))
        [AttachShadow 1 Open 9, AnimationFrame,
         HeadMutation [] (\<lambda>n. (head_sheet [] [widget_group])\<lparr>ownerNode := None\<rparr>)])
   = Some ([1], True, [], [TypeError])"
  by code_simp

theorem tracked_hosts_have_shadow_roots_witness:
  "\<exists>s. run (execute_script (widget_page [0] (head_sheet [] [widget_group])) (Script False))
          [AttachShadow 1 Open 9, PageAdopt 9 [Foreign 0], AnimationFrame] = Some s
      \<and> stylableElements s = [1]
      \<and> (\<exists>sr. attachedShadow (doc s) 1 = Some (Open, sr))
      \<and> thrown (clearShadowRootStyles (doc s) 1 []) \<noteq> Some TypeError
      \<and> thrown (applyCrossRootStyles (doc s) 1 [(''..x'', 0)]) \<noteq> Some TypeError"
proof -
  obtain s where s:
    "run (execute_script (widget_page [0] (head_sheet [] [widget_group])) (Script False))
       [AttachShadow 1 Open 9, PageAdopt 9 [Foreign 0], AnimationFrame] = Some s"
    "stylableElements s = [1]"
    using map_option_SomeD [OF widget_run] by auto
  have "reachable s"
    using run_reachable [OF reachable.start s(1)] .
  then have "(\<forall>e \<in> set (stylableElements s).
        (\<exists>sr. attachedShadow (doc s) e = Some (Open, sr)) \<and> shadowRoot (doc s) e \<noteq> None
        \<and> (\<forall>l. thrown (clearShadowRootStyles (doc s) e l) \<noteq> Some TypeError)
        \<and> (\<forall>C. thrown (applyCrossRootStyles (doc s) e C) \<noteq> Some TypeError))
     \<and> (\<forall>init C h.
          thrown (foldl (sync_element init C) (Inr ((doc s)\<lparr>sheetHeap := h\<rparr>))
                    (stylableElements s)) \<noteq> Some TypeError)"
    by (rule tracked_hosts_have_shadow_roots)
  then show ?thesis using s by auto
qed

text \<open>
  Claim C1 at the end-to-end scenario. After the frame the host is tracked and its
  baseline is recorded; it matches \<^verbatim>\<open>.widget\<close>, for which the pipeline compiles the red
  rule; but the map the wrapper applies is the one \<^verbatim>\<open>main\<close> created, which is empty, and the
  adopted list holds the page's own sheet only.
\<close>

theorem attach_applies_nothing:
  "map_option
     (\<lambda>s. (stylableElements s, matchesSel (doc s) 1 ''.widget'',
           compiled_sheet_rules (insertRuleCheck (doc s)) (captured_sheets s) ''.widget'',
           crossRootStylesVar s, adoptedStyleSheets (doc s) 9,
           map (rules_of_ref (sheetHeap (doc s))) (adoptedStyleSheets (doc s) 9), uncaught s))
     (run (execute_script (widget_page [0] (head_sheet [] [widget_group])) (Script False))
        [AttachShadow 1 Open 9, PageAdopt 9 [Foreign 0], AnimationFrame])
   = Some ([1], True, [''@layer --crossroot {p { color: red; }}''], [], [Foreign 0], [None], [])"
  by code_simp

text \<open>
  Claim C2 at a failing input. The script runs on a page without style sheets; element 1
  attaches a shadow root and a frame passes; then a sheet with media \<^verbatim>\<open>--crossroot\<close> is
  added under the head. The observer is connected and the pass runs, on the list of sheets
  \<^verbatim>\<open>main\<close> captured, which is empty: the document's sheets now compile a sheet for \<^verbatim>\<open>*\<close>,
  which the tracked host matches, and the host's adopted list is still empty.
\<close>

theorem mutation_pass_scans_snapshot:
  "map_option
     (\<lambda>s. (styleSheets (doc s),
           compiled_selectors (insertRuleCheck (doc s))
             (map (sheetObject (doc s)) (styleSheets (doc s))),
           observing s, stylableElements s, matchesSel (doc s) 1 ''*'',
           styleSheetsVar s, compiled_selectors (insertRuleCheck (doc s)) (captured_sheets s),
           adoptedStyleSheets (doc s) 9, uncaught s))
     (run (execute_script (widget_page [] (head_sheet [] [])) (Script False))
        [AttachShadow 1 Open 9, AnimationFrame,
         HeadMutation [0] (\<lambda>n. head_sheet ''--crossroot'' [red_rule])])
   = Some ([0], [''*''], True, [1], True, [], [], [], [])"
  by code_simp

text \<open>
  Claim C4 at a failing input. The script element carries the disable attribute. In the
  frame callback \<^verbatim>\<open>document.currentScript\<close> is \<^verbatim>\<open>null\<close>, so when \<^verbatim>\<open>DOMContentLoaded\<close> fires the
  handler throws: the observer stays connected and the host stays tracked. A later
  mutation under the head runs a pass that applies the compiled sheet to the host.
\<close>

theorem disable_attribute_not_read:
  "map_option (\<lambda>s. (scriptVar s, uncaught s, observing s, stylableElements s,
        adoptedStyleSheets (doc s) 9))
     (run (execute_script (widget_page [0] (head_sheet [] [widget_group])) (Script True))
        [AttachShadow 1 Open 9, AnimationFrame, DOMContentLoaded])
   = Some (None, [TypeError], True, [1], [])
   \<and> map_option (\<lambda>s. (observing s, stylableElements s, adoptedStyleSheets (doc s) 9,
        map (rules_of_ref (sheetHeap (doc s))) (adoptedStyleSheets (doc s) 9)))
     (run (execute_script (widget_page [0] (head_sheet [] [widget_group])) (Script True))
        [AttachShadow 1 Open 9, AnimationFrame, DOMContentLoaded,
         HeadMutation [0] (\<lambda>n. head_sheet [] [widget_group])])
   = Some (True, [1], [Own 3], [Some [''@layer --crossroot {p { color: red; }}'']])"
  by code_simp

end
